theory Spec2Isabelle
  imports Main "HOL-Library.AList" "HOL-Library.Sublist"
begin

section \<open>Text of the input file\<close>

text \<open>
  A Python \<^verbatim>\<open>str\<close> is a sequence of Unicode code points, so a text is a list of
  code points. The literals of the source are ASCII and are written as HOL string
  literals, converted by \<open>ascii\<close>.
\<close>

type_synonym ustr = "nat list"

definition ascii :: "string \<Rightarrow> ustr" where
  "ascii s = map of_char s"

definition backslash :: nat where "backslash = 0x5C"
definition dquote :: nat where "dquote = 0x22"
definition comma :: nat where "comma = 0x2C"
definition rbracket :: nat where "rbracket = 0x5D"

subsection \<open>The three repair passes (lines 85 to 94)\<close>

text \<open>
  \<^verbatim>\<open>re.compile(r'\\(?!")').sub(r'\\\\', json_str)\<close>: the pattern matches one backslash
  that is not followed by a double quote (at the end of the text nothing follows it);
  the replacement template denotes two backslashes. A match is one character long, so
  the scan resumes at the next character.
\<close>

fun fix_slash_not_quote :: "ustr \<Rightarrow> ustr" where
  "fix_slash_not_quote [] = []"
| "fix_slash_not_quote [c] = (if c = backslash then [backslash, backslash] else [c])"
| "fix_slash_not_quote (c # d # cs) =
     (if c = backslash \<and> d \<noteq> dquote
      then backslash # backslash # fix_slash_not_quote (d # cs)
      else c # fix_slash_not_quote (d # cs))"

text \<open>The character class \<^verbatim>\<open>[\x00-\x1F\x7F-\x9F]\<close> of line 91.\<close>

definition control_class :: "nat \<Rightarrow> bool" where
  "control_class c = (c \<le> 0x1F \<or> (0x7F \<le> c \<and> c \<le> 0x9F))"

text \<open>\<^verbatim>\<open>re.sub(r'[\x00-\x1F\x7F-\x9F]', '', text)\<close>: every match is deleted.\<close>

fun strip_control :: "ustr \<Rightarrow> ustr" where
  "strip_control [] = []"
| "strip_control (c # cs) =
     (if control_class c then strip_control cs else c # strip_control cs)"

text \<open>
  The class \<^verbatim>\<open>\s\<close> of a \<^verbatim>\<open>str\<close> pattern, which is also what \<^verbatim>\<open>str.strip()\<close>
  removes: the code points for which \<^verbatim>\<open>str.isspace\<close> holds.
\<close>

definition py_isspace :: "nat \<Rightarrow> bool" where
  "py_isspace c =
     ((0x09 \<le> c \<and> c \<le> 0x0D) \<or> (0x1C \<le> c \<and> c \<le> 0x20) \<or> c = 0x85 \<or> c = 0xA0
      \<or> c = 0x1680 \<or> (0x2000 \<le> c \<and> c \<le> 0x200A) \<or> c = 0x2028 \<or> c = 0x2029
      \<or> c = 0x202F \<or> c = 0x205F \<or> c = 0x3000)"

text \<open>
  \<^verbatim>\<open>re.sub(r',\s*]', ']', text)\<close>: at a comma, the greedy \<^verbatim>\<open>\s*\<close> takes the whole run
  of white space; the match succeeds when a closing bracket follows the run (giving
  white space back cannot help, a white-space character is no bracket). A match is
  replaced by the bracket and the scan resumes behind it; otherwise the comma is kept
  and the scan resumes at the next character.
\<close>

function remove_trailing_commas :: "ustr \<Rightarrow> ustr" where
  "remove_trailing_commas [] = []"
| "remove_trailing_commas (c # cs) =
     (if c = comma then
        (case dropWhile py_isspace cs of
           [] \<Rightarrow> c # remove_trailing_commas cs
         | b # rest \<Rightarrow>
             if b = rbracket then rbracket # remove_trailing_commas rest
             else c # remove_trailing_commas cs)
      else c # remove_trailing_commas cs)"
  by pat_completeness auto

termination remove_trailing_commas
proof (relation "measure length")
  fix c :: nat and cs b rest
  assume "dropWhile py_isspace cs = b # rest"
  then have "length (b # rest) \<le> length cs"
    using length_dropWhile_le [of py_isspace cs] by simp
  then show "(rest, c # cs) \<in> measure length" by simp
qed simp_all

definition repair :: "ustr \<Rightarrow> ustr" where
  "repair json_str =
     remove_trailing_commas (strip_control (fix_slash_not_quote json_str))"

section \<open>The prompt (lines 7 to 48)\<close>

definition DEFAULT_SYSTEM_PROMPT :: ustr where
  "DEFAULT_SYSTEM_PROMPT = ascii
      ''You are an expert assistant specialized in analyzing academic paper abstracts and extracting key information accurately and concisely.''"

definition OUTPUT_FORMAT_INSTRUCTIONS :: ustr where
  \<open>OUTPUT_FORMAT_INSTRUCTIONS = ascii (
      ''Output the result as a single JSON object in this exact format:\<newline>'' @
      ''{\<newline>'' @
      ''    "problemStatement": "(string | null) Concise description of the core research problem addressed (1-2 sentences).",\<newline>'' @
      ''    "methodology": "(string | null) Brief summary of the key method, technique, or approach proposed/used (1-2 short phrases or sentences).",\<newline>'' @
      ''    "codeLink": "(string | null) URL to the source code repository (e.g., GitHub), if mentioned explicitly in the abstract. Otherwise, null.",\<newline>'' @
      ''    "benchmark": "(string | null) Name of the specific benchmark dataset or evaluation task used, if mentioned (e.g., "C-MAPSS dataset", "ImageNet"). Otherwise, null.",\<newline>'' @
      ''    "dataset": "(string | null) Name of the primary dataset(s) used, if mentioned and different from the benchmark (e.g., "NASA turbofan engine degradation simulation data"). Otherwise, null.",\<newline>'' @
      ''    "results": "(string | null) Key quantitative results or main findings reported (e.g., "cost rate lower than preventive maintenance", "computationally efficient framework using Gaussian processes"). Otherwise, null.",\<newline>'' @
      ''    "keywords": ["Keyword 1", "Keyword 2", ...] // List of keywords extracted from the abstract, if available, e.g. ["Image Generation", "Depth Estimation", "Text to Speech", "3D Face Animation"]. Otherwise, an empty list.\<newline>'' @
      ''}\<newline>'' @
      ''\<newline>'' @
      ''Use null if information for a key cannot be clearly determined from the provided text. Do not add any explanations before or after the JSON object.'')\<close>

subsection \<open>Values of the parsed input\<close>

text \<open>
  What \<^verbatim>\<open>json.loads\<close> returns: \<^verbatim>\<open>None\<close>, a bool, an int, a float (a finite binary
  fraction, an infinity or a NaN, which the parser accepts), a str, a list or a dict.
  A dict is an association list read from the front.
\<close>

datatype pyfloat = FFinite int int | FInf bool | FNaN

datatype json =
    JNull
  | JBool bool
  | JInt int
  | JFloat pyfloat
  | JStr ustr
  | JList "json list"
  | JDict "(ustr \<times> json) list"

text \<open>Python's truth value of an object, as \<^verbatim>\<open>not\<close>, \<^verbatim>\<open>if\<close> and \<^verbatim>\<open>all\<close> test it.\<close>

fun truthy :: "json \<Rightarrow> bool" where
  "truthy JNull = False"
| "truthy (JBool b) = b"
| "truthy (JInt i) = (i \<noteq> 0)"
| "truthy (JFloat (FFinite m e)) = (m \<noteq> 0)"
| "truthy (JFloat (FInf s)) = True"
| "truthy (JFloat FNaN) = True"
| "truthy (JStr s) = (s \<noteq> [])"
| "truthy (JList xs) = (xs \<noteq> [])"
| "truthy (JDict kvs) = (kvs \<noteq> [])"

text \<open>\<^verbatim>\<open>record.get(key)\<close> on a dict: \<^verbatim>\<open>None\<close> when the key is absent.\<close>

definition dict_get :: "(ustr \<times> json) list \<Rightarrow> ustr \<Rightarrow> json" where
  "dict_get d k = (case map_of d k of None \<Rightarrow> JNull | Some v \<Rightarrow> v)"

datatype py_exc =
    FileNotFoundError
  | OSError
  | JSONDecodeError
  | ValueError
  | AttributeError
  | OtherException

text \<open>\<^verbatim>\<open>s.strip()\<close> of a str: white space is removed at both ends.\<close>

definition strip :: "ustr \<Rightarrow> ustr" where
  "strip s = rev (dropWhile py_isspace (rev (dropWhile py_isspace s)))"

text \<open>
  \<^verbatim>\<open>v.strip()\<close> of a parsed value: only a str has the method, the other values raise
  \<^verbatim>\<open>AttributeError\<close>.
\<close>

definition py_strip :: "json \<Rightarrow> py_exc + ustr" where
  "py_strip v = (case v of JStr s \<Rightarrow> Inr (strip s) | _ \<Rightarrow> Inl AttributeError)"

text \<open>
  A replacement field \<^verbatim>\<open>{v}\<close> of an f-string: a str is inserted as it is; for the other
  values the text is the interpreter's \<^verbatim>\<open>str(v)\<close>, a parameter \<open>py_str\<close> of the model.
\<close>

definition py_format :: "(json \<Rightarrow> ustr) \<Rightarrow> json \<Rightarrow> ustr" where
  "py_format py_str v = (case v of JStr s \<Rightarrow> s | _ \<Rightarrow> py_str v)"

definition create_user_prompt ::
  "(json \<Rightarrow> ustr) \<Rightarrow> json \<Rightarrow> json \<Rightarrow> json \<Rightarrow> py_exc + ustr option" where
  "create_user_prompt py_str title authors abstract =
     (if \<not> truthy abstract then Inr None
      else
        (case (if truthy abstract then py_strip abstract else Inr []) of
          Inl e \<Rightarrow> Inl e
        | Inr clean_abstract \<Rightarrow>
            if clean_abstract = [] then Inr None
            else
              (case (if truthy authors then py_strip authors else Inr (ascii ''N/A'')) of
                Inl e \<Rightarrow> Inl e
              | Inr author_str \<Rightarrow>
                  Inr (Some (
                    ascii (''## Task: Analyze the following academic paper metadata and extract the specified information based SOLELY on the provided Title and Abstract.\<newline>'' @
                           ''\<newline>'' @
                           ''## Input Metadata:\<newline>'' @
                           ''Title: '') @ py_format py_str title @
                    ascii (''\<newline>'' @
                           ''Authors: '') @ author_str @
                    ascii (''\<newline>'' @
                           ''Abstract: '') @ clean_abstract @
                    ascii (''\<newline>'' @
                           ''\<newline>'' @
                           ''## Extraction Fields and Output Format:\<newline>'') @
                    OUTPUT_FORMAT_INSTRUCTIONS @
                    ascii (''\<newline>'' @
                           ''\<newline>'' @
                           ''## Extracted JSON:''))))))"

section \<open>The run (lines 50 to 218)\<close>

subsection \<open>Requests, files, messages and the environment\<close>

text \<open>The object of lines 151 to 165, one line of a shard file once serialised.\<close>

record request_body =
  model :: ustr
  messages :: "(ustr \<times> ustr) list"
  temperature :: ustr

record chat_request =
  custom_id :: ustr
  http_method :: ustr
  url :: ustr
  body :: request_body

text \<open>Every \<^verbatim>\<open>print\<close> of the function, with the values it interpolates.\<close>

datatype msg =
    MsgCreatedDir ustr
  | MsgErrMakedirs ustr
  | MsgStarting ustr
  | MsgOutputPrefix ustr int
  | MsgFixing
  | MsgParsing
  | MsgInvalidJSON ustr
  | MsgError
  | MsgEmptyInput
  | MsgLoaded nat
  | MsgSkipMissing json
  | MsgSkipEmptyAbstract json
  | MsgFinishedWriting int ustr
  | MsgCreating ustr
  | MsgErrOpen ustr
  | MsgErrWrite ustr
  | MsgProgress int
  | MsgInputNotFound ustr
  | MsgErrRead ustr
  | MsgUnexpected
  | MsgRule
  | MsgProcessingFinished
  | MsgLikelyEmpty
  | MsgSummary int int
  | MsgSkipped int

text \<open>The arguments of \<^verbatim>\<open>convert_and_split_metadata\<close>.\<close>

record args =
  input_path :: ustr
  output_prefix :: ustr
  max_lines :: int
  model_name :: ustr
  system_prompt :: ustr

text \<open>
  What the function asks of the interpreter and the operating system: the path
  functions, opening and reading the input (\<open>None\<close> and \<open>Inr\<close> are success), the
  parser \<^verbatim>\<open>json.loads\<close>, \<^verbatim>\<open>str\<close> of a value that is no str, and whether opening a
  shard or the write after \<open>n\<close> written requests fails with an \<^verbatim>\<open>IOError\<close>.
\<close>

record env =
  dirname :: "ustr \<Rightarrow> ustr"
  path_exists :: "ustr \<Rightarrow> bool"
  makedirs_fails :: "ustr \<Rightarrow> bool"
  open_input :: "ustr \<Rightarrow> py_exc option"
  read_input :: "ustr \<Rightarrow> py_exc + ustr"
  json_loads :: "ustr \<Rightarrow> py_exc + json"
  py_str :: "json \<Rightarrow> ustr"
  open_fails :: "ustr \<Rightarrow> bool"
  write_fails :: "int \<Rightarrow> bool"

text \<open>A file object: its name and its \<^verbatim>\<open>closed\<close> attribute.\<close>

record handle =
  hname :: ustr
  hclosed :: bool

text \<open>
  The local variables of the function, the shard files written so far (in the order
  of their creation, each with its lines) and the messages printed so far.
\<close>

record state =
  total_processed_count :: int
  total_skipped_count :: int
  file_index :: int
  line_count_current_file :: int
  outfile :: "handle option"
  current_output_filename :: ustr
  files :: "(ustr \<times> chat_request list) list"
  out :: "msg list"

definition init_state :: state where
  "init_state =
     \<lparr>total_processed_count = 0, total_skipped_count = 0, file_index = 1,
      line_count_current_file = 0, outfile = None, current_output_filename = [],
      files = [], out = []\<rparr>"

text \<open>How the function leaves: by which \<^verbatim>\<open>return\<close>, or at its end.\<close>

datatype exit =
    ExitMakedirs
  | ExitInvalidJSON
  | ExitValueError
  | ExitEmptyInput
  | ExitOpenError
  | ExitWriteError
  | ExitInputNotFound
  | ExitReadError
  | ExitUnexpected
  | ExitCompleted

text \<open>A statement goes on, returns from the function, or raises.\<close>

datatype flow = Next state | Return exit state | Raise py_exc state

definition print :: "msg \<Rightarrow> state \<Rightarrow> state" where
  "print m st = st\<lparr>out := out st @ [m]\<rparr>"

text \<open>\<^verbatim>\<open>if outfile and not outfile.closed: outfile.close()\<close>\<close>

definition close_outfile :: "state \<Rightarrow> state" where
  "close_outfile st =
     (case outfile st of
        None \<Rightarrow> st
      | Some h \<Rightarrow> if \<not> hclosed h then st\<lparr>outfile := Some (h\<lparr>hclosed := True\<rparr>)\<rparr> else st)"

subsection \<open>Names of the shard files\<close>

fun digits :: "nat \<Rightarrow> ustr" where
  "digits n = (if n < 10 then [0x30 + n] else digits (n div 10) @ [0x30 + n mod 10])"

declare digits.simps [simp del]

definition str_of_int :: "int \<Rightarrow> ustr" where
  "str_of_int i = (if i < 0 then 0x2D # digits (nat (- i)) else digits (nat i))"

text \<open>\<^verbatim>\<open>f"{output_prefix}_part_{file_index}.jsonl"\<close>\<close>

definition shard_name :: "ustr \<Rightarrow> int \<Rightarrow> ustr" where
  "shard_name pfx idx = pfx @ ascii ''_part_'' @ str_of_int idx @ ascii ''.jsonl''"

subsection \<open>One record (the body of the loop, lines 117 to 189)\<close>

text \<open>Lines 124 to 127 and 131 to 134: a warning, the counter, \<^verbatim>\<open>continue\<close>.\<close>

definition skip_record :: "msg \<Rightarrow> state \<Rightarrow> state" where
  "skip_record m st = (print m st)\<lparr>total_skipped_count := total_skipped_count st + 1\<rparr>"

text \<open>
  Lines 139 to 141: the file object of the previous shard, when there is one and it
  is not closed yet, is closed, after the message about it.
\<close>

definition close_previous :: "args \<Rightarrow> state \<Rightarrow> state" where
  "close_previous a st =
     (case outfile st of
        None \<Rightarrow> st
      | Some h \<Rightarrow>
          if \<not> hclosed h
          then (print (MsgFinishedWriting (max_lines a) (current_output_filename st)) st)
                 \<lparr>outfile := Some (h\<lparr>hclosed := True\<rparr>)\<rparr>
          else st)"

text \<open>Lines 143 to 149: the shard of the current index is created and opened.\<close>

definition open_shard :: "env \<Rightarrow> args \<Rightarrow> state \<Rightarrow> flow" where
  "open_shard e a st1 =
     (let name = shard_name (output_prefix a) (file_index st1);
          st2 = print (MsgCreating name) (st1\<lparr>current_output_filename := name\<rparr>)
      in if open_fails e name then Return ExitOpenError (print (MsgErrOpen name) st2)
         else Next (st2\<lparr>outfile := Some \<lparr>hname = name, hclosed = False\<rparr>,
                         files := AList.update name [] (files st2)\<rparr>))"

text \<open>Lines 137 to 149: a shard is opened when no line of the current one is written.\<close>

definition open_output :: "env \<Rightarrow> args \<Rightarrow> state \<Rightarrow> flow" where
  "open_output e a st =
     (if line_count_current_file st = 0 then open_shard e a (close_previous a st)
      else Next st)"

text \<open>Lines 151 to 165.\<close>

definition jsonl_line :: "env \<Rightarrow> args \<Rightarrow> json \<Rightarrow> ustr \<Rightarrow> chat_request" where
  "jsonl_line e a paper_id user_content =
     \<lparr>custom_id = ascii ''extract-'' @ py_format (py_str e) paper_id,
      http_method = ascii ''POST'',
      url = ascii ''/v4/chat/completions'',
      body = \<lparr>model = model_name a,
              messages = [(ascii ''system'', system_prompt a), (ascii ''user'', user_content)],
              temperature = ascii ''0.1''\<rparr>\<rparr>"

text \<open>
  Lines 167 to 176: the line is appended to the open shard. A closed file object
  raises \<^verbatim>\<open>ValueError\<close>, which the handler of line 173 does not catch.
\<close>

definition write_line :: "env \<Rightarrow> state \<Rightarrow> chat_request \<Rightarrow> flow" where
  "write_line e st line =
     (case outfile st of
        None \<Rightarrow>
          Return ExitWriteError (close_outfile (print (MsgErrWrite (current_output_filename st)) st))
      | Some h \<Rightarrow>
          if hclosed h then Raise ValueError st
          else if write_fails e (total_processed_count st)
          then Return ExitWriteError
                 (close_outfile (print (MsgErrWrite (current_output_filename st)) st))
          else Next (st\<lparr>files := AList.map_entry (hname h) (\<lambda>ls. ls @ [line]) (files st)\<rparr>))"

text \<open>Lines 178 to 189: the counters, the full shard, the progress message.\<close>

definition count_line :: "args \<Rightarrow> state \<Rightarrow> state" where
  "count_line a st =
     (let st1 = st\<lparr>line_count_current_file := line_count_current_file st + 1,
                   total_processed_count := total_processed_count st + 1\<rparr>;
          st2 = (if line_count_current_file st1 \<ge> max_lines a
                 then st1\<lparr>file_index := file_index st1 + 1, line_count_current_file := 0\<rparr>
                 else st1)
      in if total_processed_count st2 mod 1000 = 0
         then print (MsgProgress (total_processed_count st2)) st2
         else st2)"

definition process_record :: "env \<Rightarrow> args \<Rightarrow> state \<Rightarrow> json \<Rightarrow> flow" where
  "process_record e a st record =
     (case record of
        JDict d \<Rightarrow>
          (let paper_id = dict_get d (ascii ''_id'');
               title = dict_get d (ascii ''title'');
               abstract = dict_get d (ascii ''abstract'');
               authors = dict_get d (ascii ''author'')
           in if \<not> (truthy paper_id \<and> truthy title \<and> truthy abstract)
              then Next (skip_record (MsgSkipMissing record) st)
              else
                (case create_user_prompt (py_str e) title authors abstract of
                   Inl exc \<Rightarrow> Raise exc st
                 | Inr None \<Rightarrow> Next (skip_record (MsgSkipEmptyAbstract paper_id) st)
                 | Inr (Some user_content) \<Rightarrow>
                     (case open_output e a st of
                        Next st1 \<Rightarrow>
                          (case write_line e st1 (jsonl_line e a paper_id user_content) of
                             Next st2 \<Rightarrow> Next (count_line a st2)
                           | stop \<Rightarrow> stop)
                      | stop \<Rightarrow> stop)))
      | _ \<Rightarrow> Raise AttributeError st)"

text \<open>The loop of line 116.\<close>

fun process_records :: "env \<Rightarrow> args \<Rightarrow> state \<Rightarrow> json list \<Rightarrow> flow" where
  "process_records e a st [] = Next st"
| "process_records e a st (record # rest) =
     (case process_record e a st record of
        Next st' \<Rightarrow> process_records e a st' rest
      | stop \<Rightarrow> stop)"

subsection \<open>The whole function\<close>

text \<open>Lines 191 to 202: the handlers of the outer \<^verbatim>\<open>try\<close>.\<close>

definition outer_handler :: "args \<Rightarrow> py_exc \<Rightarrow> state \<Rightarrow> exit \<times> state" where
  "outer_handler a exc st =
     (case exc of
        FileNotFoundError \<Rightarrow>
          (ExitInputNotFound, close_outfile (print (MsgInputNotFound (input_path a)) st))
      | OSError \<Rightarrow> (ExitReadError, close_outfile (print (MsgErrRead (input_path a)) st))
      | _ \<Rightarrow> (ExitUnexpected, close_outfile (print MsgUnexpected st)))"

text \<open>Lines 102 to 107: the handlers of the inner \<^verbatim>\<open>try\<close>; the rest goes outwards.\<close>

definition inner_handler :: "args \<Rightarrow> py_exc \<Rightarrow> state \<Rightarrow> exit \<times> state" where
  "inner_handler a exc st =
     (case exc of
        JSONDecodeError \<Rightarrow> (ExitInvalidJSON, print (MsgInvalidJSON (input_path a)) st)
      | ValueError \<Rightarrow> (ExitValueError, print MsgError st)
      | _ \<Rightarrow> outer_handler a exc st)"

text \<open>Lines 204 to 218.\<close>

definition final_report :: "state \<Rightarrow> state" where
  "final_report st =
     (let st1 = (case outfile st of
                   None \<Rightarrow> st
                 | Some h \<Rightarrow>
                     if \<not> hclosed h
                     then (print (MsgFinishedWriting (line_count_current_file st)
                                    (current_output_filename st)) st)
                            \<lparr>outfile := Some (h\<lparr>hclosed := True\<rparr>)\<rparr>
                     else st);
          st2 = print MsgProcessingFinished (print MsgRule st1);
          st3 = (if total_processed_count st2 = 0 \<and> total_skipped_count st2 = 0
                 then print MsgLikelyEmpty st2
                 else
                   let final_file_count =
                         (if line_count_current_file st2 = 0 \<and> total_processed_count st2 > 0
                          then file_index st2 else file_index st2)
                   in print (MsgSkipped (total_skipped_count st2))
                        (print (MsgSummary (total_processed_count st2) final_file_count) st2))
      in print MsgRule st3)"

text \<open>
  Lines 57 to 107: the output directory, the input file, the repair and the parser.
  The result is the way the function leaves, or the state and the parsed list.
\<close>

definition load_metadata :: "env \<Rightarrow> args \<Rightarrow> (exit \<times> state) + (state \<times> json list)" where
  "load_metadata e a =
     (let output_dir = dirname e (output_prefix a);
          made = (output_dir \<noteq> [] \<and> \<not> path_exists e output_dir)
      in if made \<and> makedirs_fails e output_dir
         then Inl (ExitMakedirs, print (MsgErrMakedirs output_dir) init_state)
         else
           let st0 = (if made then print (MsgCreatedDir output_dir) init_state else init_state);
               st1 = print (MsgOutputPrefix (output_prefix a) (max_lines a))
                       (print (MsgStarting (input_path a)) st0)
           in (case open_input e (input_path a) of
                 Some exc \<Rightarrow> Inl (outer_handler a exc st1)
               | None \<Rightarrow>
                   (case read_input e (input_path a) of
                      Inl exc \<Rightarrow> Inl (inner_handler a exc st1)
                    | Inr json_str \<Rightarrow>
                        (let st2 = print MsgParsing (print MsgFixing st1)
                         in case json_loads e (repair json_str) of
                              Inl exc \<Rightarrow> Inl (inner_handler a exc st2)
                            | Inr (JList metadata_list) \<Rightarrow> Inr (st2, metadata_list)
                            | Inr _ \<Rightarrow> Inl (inner_handler a ValueError st2)))))"

text \<open>Lines 109 to 218: the empty list, the loop, the handlers and the report.\<close>

definition convert_and_split_metadata :: "env \<Rightarrow> args \<Rightarrow> exit \<times> state" where
  "convert_and_split_metadata e a =
     (case load_metadata e a of
        Inl left \<Rightarrow> left
      | Inr (st2, metadata_list) \<Rightarrow>
          if metadata_list = []
          then (ExitEmptyInput, print MsgEmptyInput st2)
          else
            (case process_records e a (print (MsgLoaded (length metadata_list)) st2)
                    metadata_list of
               Next st3 \<Rightarrow> (ExitCompleted, final_report st3)
             | Return x st3 \<Rightarrow> (x, st3)
             | Raise exc st3 \<Rightarrow> outer_handler a exc st3))"

text \<open>Lines 264 to 273: \<^verbatim>\<open>main\<close> runs the function for a positive chunk size only.\<close>

datatype main_result = ChunkSizeError | Ran exit state

definition main :: "env \<Rightarrow> args \<Rightarrow> main_result" where
  "main e a =
     (if max_lines a \<le> 0 then ChunkSizeError
      else case convert_and_split_metadata e a of (x, st) \<Rightarrow> Ran x st)"

section \<open>Properties\<close>

subsection \<open>Notions used in the statements\<close>

text \<open>
  The control ranges as the specification names them: the C0 controls are the code
  points up to U+001F, the C1 controls those from U+0080 to U+009F.
\<close>

definition c0_range :: "nat \<Rightarrow> bool" where
  "c0_range c = (c \<le> 0x1F)"

definition c1_range :: "nat \<Rightarrow> bool" where
  "c1_range c = (0x80 \<le> c \<and> c \<le> 0x9F)"

text \<open>What the first pass puts in the place of the character at position \<open>i\<close>.\<close>

definition slash_piece :: "ustr \<Rightarrow> nat \<Rightarrow> ustr" where
  "slash_piece t i =
     (if t ! i = backslash \<and> \<not> (Suc i < length t \<and> t ! Suc i = dquote)
      then [backslash, backslash] else [t ! i])"

text \<open>All request lines written, shard after shard.\<close>

definition request_lines :: "state \<Rightarrow> chat_request list" where
  "request_lines st = concat (map snd (files st))"

text \<open>
  The number of lines after which line 182 finds a shard full: \<open>max_lines\<close>, and 1
  when \<open>max_lines\<close> is not positive (the comparison then holds after every line).
\<close>

definition cap :: "args \<Rightarrow> nat" where
  "cap a = nat (max 1 (max_lines a))"

text \<open>The names of the first \<open>k\<close> shards: parts 1 to \<open>k\<close>.\<close>

definition shard_names :: "args \<Rightarrow> nat \<Rightarrow> ustr list" where
  "shard_names a k = map (\<lambda>i. shard_name (output_prefix a) (int i + 1)) [0..<k]"

text \<open>
  The shape of the shard files at every moment of a run: they are parts 1, 2, ... in
  this order, all but the last hold \<open>cap\<close> lines, none holds more, and the lines
  are as many as the processed count.
\<close>

definition files_shape :: "args \<Rightarrow> state \<Rightarrow> bool" where
  "files_shape a st =
     (map fst (files st) = shard_names a (length (files st)) \<and>
      (\<forall>f\<in>set (butlast (files st)). length (snd f) = cap a) \<and>
      (\<forall>f\<in>set (files st). length (snd f) \<le> cap a) \<and>
      total_processed_count st = int (length (request_lines st)))"

definition nonempty_files :: "state \<Rightarrow> bool" where
  "nonempty_files st = (\<forall>f\<in>set (files st). snd f \<noteq> [])"

text \<open>The invariant of the loop, between two records.\<close>

definition loop_inv :: "args \<Rightarrow> state \<Rightarrow> bool" where
  "loop_inv a st =
     (files_shape a st \<and>
      0 \<le> line_count_current_file st \<and> line_count_current_file st < int (cap a) \<and>
      file_index st = (if line_count_current_file st = 0 then int (length (files st)) + 1
                       else int (length (files st))) \<and>
      (files st \<noteq> [] \<longrightarrow>
         length (snd (last (files st))) =
           (if line_count_current_file st = 0 then cap a else nat (line_count_current_file st))) \<and>
      (line_count_current_file st \<noteq> 0 \<longrightarrow> files st \<noteq> []) \<and>
      outfile st = (if files st = [] then None
                    else Some \<lparr>hname = fst (last (files st)), hclosed = False\<rparr>))"

text \<open>What holds between line 149 and line 167, once the shard to write to is open.\<close>

definition mid_inv :: "args \<Rightarrow> state \<Rightarrow> bool" where
  "mid_inv a st =
     (files_shape a st \<and> files st \<noteq> [] \<and>
      0 \<le> line_count_current_file st \<and> line_count_current_file st < int (cap a) \<and>
      file_index st = int (length (files st)) \<and>
      length (snd (last (files st))) = nat (line_count_current_file st) \<and>
      outfile st = Some \<lparr>hname = fst (last (files st)), hclosed = False\<rparr>)"

definition append_last ::
  "chat_request \<Rightarrow> (ustr \<times> chat_request list) list \<Rightarrow> (ustr \<times> chat_request list) list" where
  "append_last l fs = butlast fs @ [(fst (last fs), snd (last fs) @ [l])]"

fun flow_state :: "flow \<Rightarrow> state" where
  "flow_state (Next st) = st"
| "flow_state (Return x st) = st"
| "flow_state (Raise exc st) = st"

text \<open>No shard fails to open and no write fails.\<close>

definition io_ok :: "env \<Rightarrow> bool" where
  "io_ok e = ((\<forall>name. \<not> open_fails e name) \<and> (\<forall>n. \<not> write_fails e n))"

text \<open>
  A well-formed record is a mapping whose abstract and author, where present and not
  falsy, are strings (the only values that have \<^verbatim>\<open>strip\<close>).
\<close>

definition str_or_falsy :: "json \<Rightarrow> bool" where
  "str_or_falsy v = (case v of JStr s \<Rightarrow> True | _ \<Rightarrow> \<not> truthy v)"

definition well_formed_record :: "json \<Rightarrow> bool" where
  "well_formed_record r =
     (case r of
        JDict d \<Rightarrow> str_or_falsy (dict_get d (ascii ''abstract'')) \<and>
                   str_or_falsy (dict_get d (ascii ''author''))
      | _ \<Rightarrow> False)"

definition is_mapping :: "json \<Rightarrow> bool" where
  "is_mapping r = (case r of JDict d \<Rightarrow> True | _ \<Rightarrow> False)"

text \<open>The value of \<^verbatim>\<open>_id\<close> in a record.\<close>

definition paper_id_of :: "json \<Rightarrow> json" where
  "paper_id_of r = (case r of JDict d \<Rightarrow> dict_get d (ascii ''_id'') | _ \<Rightarrow> JNull)"

text \<open>The request line \<open>l\<close> is the one lines 130 and 151 to 165 build from the record \<open>r\<close>.\<close>

definition built_from :: "env \<Rightarrow> args \<Rightarrow> json \<Rightarrow> chat_request \<Rightarrow> bool" where
  "built_from e a r l =
     (case r of
        JDict d \<Rightarrow>
          (case create_user_prompt (py_str e) (dict_get d (ascii ''title''))
                  (dict_get d (ascii ''author'')) (dict_get d (ascii ''abstract'')) of
             Inr (Some user_content) \<Rightarrow>
               l = jsonl_line e a (dict_get d (ascii ''_id'')) user_content
           | _ \<Rightarrow> False)
      | _ \<Rightarrow> False)"

text \<open>What the loop over \<open>rs\<close>, started in \<open>st\<close>, has done when it leaves as \<open>fl\<close>.\<close>

definition loop_post :: "env \<Rightarrow> args \<Rightarrow> state \<Rightarrow> json list \<Rightarrow> flow \<Rightarrow> bool" where
  "loop_post e a st rs fl =
     (files_shape a (flow_state fl) \<and>
      (\<exists>ps ls. subseq ps rs \<and> list_all2 (built_from e a) ps ls \<and>
               request_lines (flow_state fl) = request_lines st @ ls) \<and>
      (case fl of
         Next st' \<Rightarrow>
           loop_inv a st' \<and>
           total_processed_count st' + total_skipped_count st' =
             total_processed_count st + total_skipped_count st + int (length rs)
       | Return x st' \<Rightarrow>
           ((x = ExitOpenError \<and> nonempty_files st') \<or> x = ExitWriteError) \<and> \<not> io_ok e \<and>
           total_processed_count st' + total_skipped_count st' <
             total_processed_count st + total_skipped_count st + int (length rs)
       | Raise exc st' \<Rightarrow>
           exc = AttributeError \<and> nonempty_files st' \<and>
           \<not> (\<forall>r\<in>set rs. well_formed_record r) \<and>
           total_processed_count st' + total_skipped_count st' <
             total_processed_count st + total_skipped_count st + int (length rs)))"

text \<open>What a run over the parsed list \<open>recs\<close> has done when it leaves by \<open>x\<close> in \<open>st\<close>.\<close>

definition run_post :: "env \<Rightarrow> args \<Rightarrow> json list \<Rightarrow> exit \<Rightarrow> state \<Rightarrow> bool" where
  "run_post e a recs x st =
     (files_shape a st \<and>
      (\<exists>ps. subseq ps recs \<and> list_all2 (built_from e a) ps (request_lines st)) \<and>
      (x \<noteq> ExitWriteError \<longrightarrow> nonempty_files st) \<and>
      (if x = ExitCompleted \<or> x = ExitEmptyInput
       then total_processed_count st + total_skipped_count st = int (length recs)
       else total_processed_count st + total_skipped_count st < int (length recs)) \<and>
      (x = ExitCompleted \<or> x = ExitEmptyInput \<or>
       (x = ExitUnexpected \<and> \<not> (\<forall>r\<in>set recs. well_formed_record r)) \<or>
       ((x = ExitOpenError \<or> x = ExitWriteError) \<and> \<not> io_ok e)))"

text \<open>Nothing is written and nothing is counted yet.\<close>

definition clean :: "state \<Rightarrow> bool" where
  "clean st = (files st = [] \<and> total_processed_count st = 0 \<and> total_skipped_count st = 0)"

subsection \<open>A concrete run\<close>

text \<open>
  The example of the specification: two records, the second without abstract, and a
  chunk size of 1, in an environment in which nothing fails.
\<close>

definition example_text :: ustr where
  \<open>example_text = ascii ''[{"_id":"p1","title":"T","abstract":"A B"},{"_id":"p2","title":"T2"}]''\<close>

definition example_records :: "json list" where
  "example_records =
     [JDict [(ascii ''_id'', JStr (ascii ''p1'')), (ascii ''title'', JStr (ascii ''T'')),
             (ascii ''abstract'', JStr (ascii ''A B''))],
      JDict [(ascii ''_id'', JStr (ascii ''p2'')), (ascii ''title'', JStr (ascii ''T2''))]]"

definition example_env :: env where
  "example_env =
     \<lparr>dirname = (\<lambda>p. []), path_exists = (\<lambda>p. True), makedirs_fails = (\<lambda>p. False),
      open_input = (\<lambda>p. None), read_input = (\<lambda>p. Inr example_text),
      json_loads = (\<lambda>t. if t = example_text then Inr (JList example_records)
                          else Inl JSONDecodeError),
      py_str = (\<lambda>v. []), open_fails = (\<lambda>name. False), write_fails = (\<lambda>n. False)\<rparr>"

definition example_args :: args where
  "example_args =
     \<lparr>input_path = ascii ''in.json'', output_prefix = ascii ''out'', max_lines = 1,
      model_name = ascii ''glm-4-flash'', system_prompt = DEFAULT_SYSTEM_PROMPT\<rparr>"

text \<open>The same run when every write to a shard fails.\<close>

definition full_disk_env :: env where
  "full_disk_env = example_env\<lparr>write_fails := \<lambda>n. True\<rparr>"

text \<open>The same run when a string stands between the two records of the parsed list.\<close>

definition stray_env :: env where
  "stray_env =
     example_env\<lparr>json_loads :=
       \<lambda>t. Inr (JList ([hd example_records] @ JStr (ascii ''stray'') # tl example_records))\<rparr>"

section \<open>The repair passes\<close>

lemma slash_piece_Cons: "slash_piece (c # t) (Suc i) = slash_piece t i"
  by (simp add: slash_piece_def)

lemma concat_upt_Suc:
  "concat (map G [0..<Suc n]) = G 0 @ concat (map (\<lambda>i. G (Suc i)) [0..<n])"
  by (simp add: map_upt_Suc del: upt_Suc)

lemma fix_slash_pieces:
  "fix_slash_not_quote t = concat (map (slash_piece t) [0..<length t])"
proof (induction t rule: fix_slash_not_quote.induct)
  case 1
  show ?case by simp
next
  case (2 c)
  show ?case by (simp add: slash_piece_def)
next
  case (3 c d cs)
  have "concat (map (slash_piece (c # d # cs)) [0..<length (c # d # cs)])
        = slash_piece (c # d # cs) 0 @ concat (map (slash_piece (d # cs)) [0..<length (d # cs)])"
    unfolding length_Cons [of c] concat_upt_Suc slash_piece_Cons ..
  moreover have "slash_piece (c # d # cs) 0 =
      (if c = backslash \<and> d \<noteq> dquote then [backslash, backslash] else [c])"
    by (simp add: slash_piece_def)
  ultimately show ?case using 3 by simp
qed

text \<open>
  C3. The first repair pass replaces the character at each position of the text, in
  order, by two backslashes when it is a backslash that is not immediately followed
  by a double quote (a backslash at the very end is followed by nothing), and by
  itself otherwise: every such backslash is doubled, a backslash followed by a double
  quote stays as it is, and nothing else changes.
\<close>

theorem fix_slash_doubles_unquoted_backslashes:
  "fix_slash_not_quote t =
     concat (map (\<lambda>i. if t ! i = backslash \<and> \<not> (Suc i < length t \<and> t ! Suc i = dquote)
                        then [backslash, backslash] else [t ! i])
               [0..<length t])"
  using fix_slash_pieces [of t] unfolding slash_piece_def .

theorem fix_slash_doubles_unquoted_backslashes_witness:
  "fix_slash_not_quote [0x5C, 0x22, 0x5C, 0x6E, 0x5C] =
     [0x5C, 0x22, 0x5C, 0x5C, 0x6E, 0x5C, 0x5C]"
  using fix_slash_doubles_unquoted_backslashes [of "[0x5C, 0x22, 0x5C, 0x6E, 0x5C]"]
  by (simp add: backslash_def dquote_def)

lemma strip_control_filter: "strip_control t = filter (\<lambda>c. \<not> control_class c) t"
  by (induction t) auto

lemma comma_not_space: "\<not> py_isspace comma"
  by (simp add: py_isspace_def comma_def)

lemma rbracket_not_space: "\<not> py_isspace rbracket"
  by (simp add: py_isspace_def rbracket_def)

lemma dropWhile_append_stop:
  "\<not> P r \<Longrightarrow> dropWhile P (cs @ r # rs) =
     (case dropWhile P cs of [] \<Rightarrow> r # rs | b # rest \<Rightarrow> b # rest @ r # rs)"
  by (induction cs) auto

lemma remove_trailing_commas_at_bracket:
  assumes ws: "\<forall>c\<in>set ws. py_isspace c"
  shows "remove_trailing_commas (xs @ comma # ws @ rbracket # ys) =
     remove_trailing_commas xs @ rbracket # remove_trailing_commas ys"
proof (induction xs rule: remove_trailing_commas.induct)
  case 1
  from ws have "dropWhile py_isspace (ws @ rbracket # ys) = rbracket # ys"
    by (simp add: dropWhile_append rbracket_not_space)
  then show ?case by simp
next
  case (2 c cs)
  let ?R = "comma # ws @ rbracket # ys"
  note dw = dropWhile_append_stop [of py_isspace comma cs "ws @ rbracket # ys", OF comma_not_space]
  show ?case
  proof (cases "c = comma")
    case False
    with 2 show ?thesis by simp
  next
    case True
    have neq: "comma \<noteq> rbracket" by (simp add: comma_def rbracket_def)
    note step_l = remove_trailing_commas.simps(2) [of c "cs @ ?R"]
    note step_r = remove_trailing_commas.simps(2) [of c cs]
    show ?thesis
    proof (cases "dropWhile py_isspace cs")
      case Nil
      have l: "remove_trailing_commas (c # cs @ ?R) = c # remove_trailing_commas (cs @ ?R)"
        unfolding step_l dw Nil using True neq by simp
      have r: "remove_trailing_commas (c # cs) = c # remove_trailing_commas cs"
        unfolding step_r Nil using True by simp
      from "2.IH"(1) [OF True Nil] l r show ?thesis by simp
    next
      case (Cons b rest)
      show ?thesis
      proof (cases "b = rbracket")
        case bt: True
        have l: "remove_trailing_commas (c # cs @ ?R) =
            rbracket # remove_trailing_commas (rest @ ?R)"
          unfolding step_l dw Cons using True bt by simp
        have r: "remove_trailing_commas (c # cs) = rbracket # remove_trailing_commas rest"
          unfolding step_r Cons using True bt by simp
        from "2.IH"(2) [OF True Cons bt] l r show ?thesis by simp
      next
        case bf: False
        have l: "remove_trailing_commas (c # cs @ ?R) = c # remove_trailing_commas (cs @ ?R)"
          unfolding step_l dw Cons using True bf by simp
        have r: "remove_trailing_commas (c # cs) = c # remove_trailing_commas cs"
          unfolding step_r Cons using True bf by simp
        from "2.IH"(3) [OF True Cons bf] l r show ?thesis by simp
      qed
    qed
  qed
qed

text \<open>
  C4, as stated, fails: the stripping pass also deletes U+007F (DEL), which lies in
  neither the C0 range nor the C1 range. Here the letters A and B survive and the DEL
  between them is deleted.
\<close>

theorem strip_control_deletes_del:
  "strip_control [0x41, 0x7F, 0x42] = [0x41, 0x42] \<and> \<not> c0_range 0x7F \<and> \<not> c1_range 0x7F"
  by (simp add: control_class_def c0_range_def c1_range_def)

text \<open>
  C4, amended. After the backslash pass the repair deletes exactly the code points of
  the C0 range, U+007F and the C1 range, and then applies the comma pass, in which a
  comma followed by a closing bracket, with at most white space between them, is
  removed together with that white space.
\<close>

theorem repair_strips_controls_then_commas:
  "repair t =
     remove_trailing_commas
       (filter (\<lambda>c. \<not> (c0_range c \<or> c = 0x7F \<or> c1_range c)) (fix_slash_not_quote t))
   \<and> (\<forall>xs ws ys. (\<forall>c\<in>set ws. py_isspace c) \<longrightarrow>
         remove_trailing_commas (xs @ comma # ws @ rbracket # ys) =
           remove_trailing_commas xs @ rbracket # remove_trailing_commas ys)"
proof -
  have "(\<lambda>c. \<not> control_class c) = (\<lambda>c. \<not> (c0_range c \<or> c = 0x7F \<or> c1_range c))"
    by (auto simp: control_class_def c0_range_def c1_range_def fun_eq_iff)
  then have "repair t =
     remove_trailing_commas
       (filter (\<lambda>c. \<not> (c0_range c \<or> c = 0x7F \<or> c1_range c)) (fix_slash_not_quote t))"
    by (simp add: repair_def strip_control_filter)
  then show ?thesis
    using remove_trailing_commas_at_bracket by blast
qed

theorem repair_strips_controls_then_commas_witness:
  "remove_trailing_commas ([0x5B, 0x31] @ comma # [0x20] @ rbracket # [0x0A]) =
     remove_trailing_commas [0x5B, 0x31] @ rbracket # remove_trailing_commas [0x0A]"
proof -
  have h: "\<forall>c\<in>set [0x20]. py_isspace c" by (simp add: py_isspace_def)
  from repair_strips_controls_then_commas [of "[]"]
  have "(\<forall>c\<in>set [0x20]. py_isspace c) \<longrightarrow>
      remove_trailing_commas ([0x5B, 0x31] @ comma # [0x20] @ rbracket # [0x0A]) =
        remove_trailing_commas [0x5B, 0x31] @ rbracket # remove_trailing_commas [0x0A]"
    by blast
  with h show ?thesis by blast
qed

section \<open>The shard files during a run\<close>

lemma digits_nonempty: "digits n \<noteq> []"
  by (subst digits.simps) simp

lemma digits_last: "last (digits n) = 0x30 + n mod 10"
  by (subst digits.simps) simp

lemma digits_butlast: "butlast (digits n) = (if n < 10 then [] else digits (n div 10))"
  by (subst digits.simps) simp

lemma digits_inj: "digits n = digits m \<Longrightarrow> n = m"
proof (induction n arbitrary: m rule: digits.induct)
  case (1 n)
  from "1.prems" have l: "n mod 10 = m mod 10"
    using digits_last [of n] digits_last [of m] by simp
  from "1.prems" have b: "butlast (digits n) = butlast (digits m)" by simp
  show ?case
  proof (cases "n < 10")
    case True
    with b have "m < 10" using digits_nonempty [of "m div 10"]
      by (auto simp: digits_butlast split: if_splits)
    with True l show ?thesis by simp
  next
    case False
    with b have m: "\<not> m < 10" and d: "digits (n div 10) = digits (m div 10)"
      using digits_nonempty [of "n div 10"]
      by (auto simp: digits_butlast split: if_splits)
    from "1.IH" [OF False d] have "n div 10 = m div 10" .
    with l show ?thesis by (metis div_mult_mod_eq)
  qed
qed

lemma str_of_int_inj: "0 \<le> i \<Longrightarrow> 0 \<le> j \<Longrightarrow> str_of_int i = str_of_int j \<Longrightarrow> i = j"
  by (auto simp: str_of_int_def dest: digits_inj)

lemma shard_name_inj:
  "0 \<le> i \<Longrightarrow> 0 \<le> j \<Longrightarrow> shard_name p i = shard_name p j \<Longrightarrow> i = j"
  by (auto simp: shard_name_def dest: str_of_int_inj)

lemma update_fresh: "k \<notin> fst ` set al \<Longrightarrow> AList.update k v al = al @ [(k, v)]"
  by (induction al) auto

lemma map_entry_last:
  "fs \<noteq> [] \<Longrightarrow> distinct (map fst fs) \<Longrightarrow>
   AList.map_entry (fst (last fs)) f fs = butlast fs @ [(fst (last fs), f (snd (last fs)))]"
proof (induction fs)
  case Nil then show ?case by simp
next
  case (Cons p fs)
  show ?case
  proof (cases "fs = []")
    case True then show ?thesis by (cases p) simp
  next
    case False
    with Cons.prems have "fst (last fs) \<noteq> fst p"
      by (metis distinct.simps(2) last_in_set list.simps(9) image_eqI list.set_map)
    with Cons False show ?thesis by (cases p) auto
  qed
qed

lemma shard_names_Suc:
  "shard_names a (Suc k) = shard_names a k @ [shard_name (output_prefix a) (int k + 1)]"
  by (simp add: shard_names_def)

lemma length_shard_names [simp]: "length (shard_names a k) = k"
  by (simp add: shard_names_def)

lemma shard_names_distinct: "distinct (shard_names a k)"
  unfolding shard_names_def
proof (rule distinct_map [THEN iffD2], intro conjI inj_onI)
  show "distinct [0..<k]" by simp
next
  fix x y
  assume "shard_name (output_prefix a) (int x + 1) = shard_name (output_prefix a) (int y + 1)"
  then have "int x + 1 = int y + 1" by (rule shard_name_inj [rotated 2]) simp_all
  then show "x = y" by simp
qed

lemma shard_name_fresh: "shard_name (output_prefix a) (int k + 1) \<notin> set (shard_names a k)"
  using shard_names_distinct [of a "Suc k"] by (simp add: shard_names_Suc)

lemma print_fields [simp]:
  "files (print m st) = files st"
  "total_processed_count (print m st) = total_processed_count st"
  "total_skipped_count (print m st) = total_skipped_count st"
  "file_index (print m st) = file_index st"
  "line_count_current_file (print m st) = line_count_current_file st"
  "outfile (print m st) = outfile st"
  "current_output_filename (print m st) = current_output_filename st"
  "out (print m st) = out st @ [m]"
  by (simp_all add: print_def)

lemma close_outfile_fields [simp]:
  "files (close_outfile st) = files st"
  "total_processed_count (close_outfile st) = total_processed_count st"
  "total_skipped_count (close_outfile st) = total_skipped_count st"
  "file_index (close_outfile st) = file_index st"
  "line_count_current_file (close_outfile st) = line_count_current_file st"
  "current_output_filename (close_outfile st) = current_output_filename st"
  "out (close_outfile st) = out st"
  by (simp_all add: close_outfile_def split: option.splits)

lemma request_lines_print [simp]: "request_lines (print m st) = request_lines st"
  by (simp add: request_lines_def)

lemma request_lines_close [simp]: "request_lines (close_outfile st) = request_lines st"
  by (simp add: request_lines_def)

lemma files_shape_cong:
  "files st' = files st \<Longrightarrow> total_processed_count st' = total_processed_count st \<Longrightarrow>
   files_shape a st' = files_shape a st"
  by (simp add: files_shape_def request_lines_def)

lemma loop_inv_shape: "loop_inv a st \<Longrightarrow> files_shape a st"
  by (simp add: loop_inv_def)

lemma mid_inv_shape: "mid_inv a st \<Longrightarrow> files_shape a st"
  by (simp add: mid_inv_def)

lemma cap_pos: "0 < cap a"
  by (simp add: cap_def)

lemma loop_inv_nonempty: "loop_inv a st \<Longrightarrow> f \<in> set (files st) \<Longrightarrow> snd f \<noteq> []"
proof -
  assume inv: "loop_inv a st" and f: "f \<in> set (files st)"
  then have ne: "files st \<noteq> []" by auto
  then have "files st = butlast (files st) @ [last (files st)]" by simp
  with f have "f \<in> set (butlast (files st)) \<or> f = last (files st)"
    by (metis Un_iff empty_iff insert_iff list.set(1) list.set(2) set_append)
  then show ?thesis
  proof
    assume "f \<in> set (butlast (files st))"
    with inv have "length (snd f) = cap a" by (simp add: loop_inv_def files_shape_def)
    with cap_pos [of a] show ?thesis by auto
  next
    assume "f = last (files st)"
    with inv ne have "length (snd f) =
        (if line_count_current_file st = 0 then cap a else nat (line_count_current_file st))"
      by (simp add: loop_inv_def)
    moreover from inv have "0 \<le> line_count_current_file st" by (simp add: loop_inv_def)
    ultimately show ?thesis using cap_pos [of a] by (auto split: if_splits)
  qed
qed

lemma init_inv: "loop_inv a init_state"
  by (simp add: loop_inv_def files_shape_def init_state_def shard_names_def request_lines_def cap_def max_def)

lemma open_output_Next_fields:
  assumes "open_output e a st = Next st1" "line_count_current_file st = 0"
  shows "files st1 = AList.update (shard_name (output_prefix a) (file_index st)) [] (files st)"
    and "outfile st1 = Some \<lparr>hname = shard_name (output_prefix a) (file_index st), hclosed = False\<rparr>"
    and "total_processed_count st1 = total_processed_count st"
    and "total_skipped_count st1 = total_skipped_count st"
    and "line_count_current_file st1 = line_count_current_file st"
    and "file_index st1 = file_index st"
    and "current_output_filename st1 = shard_name (output_prefix a) (file_index st)"
  using assms
  by (auto simp: open_output_def close_previous_def open_shard_def Let_def
           split: if_splits option.splits)

lemma open_output_Next_same:
  "open_output e a st = Next st1 \<Longrightarrow> line_count_current_file st \<noteq> 0 \<Longrightarrow> st1 = st"
  by (simp add: open_output_def)

lemma open_output_Return:
  assumes "open_output e a st = Return x st1"
  shows "x = ExitOpenError" and "files st1 = files st"
    and "total_processed_count st1 = total_processed_count st"
    and "total_skipped_count st1 = total_skipped_count st"
    and "line_count_current_file st = 0"
    and "open_fails e (shard_name (output_prefix a) (file_index st))"
  using assms
  by (auto simp: open_output_def close_previous_def open_shard_def Let_def
           split: if_splits option.splits)

lemma open_output_no_Raise: "open_output e a st \<noteq> Raise exc st1"
  by (auto simp: open_output_def close_previous_def open_shard_def Let_def
           split: if_splits option.splits)

lemma loop_inv_all_full:
  assumes "loop_inv a st" "line_count_current_file st = 0"
  shows "\<forall>f\<in>set (files st). length (snd f) = cap a"
proof (cases "files st = []")
  case True then show ?thesis by simp
next
  case False
  then have "files st = butlast (files st) @ [last (files st)]" by simp
  then have "set (files st) = set (butlast (files st)) \<union> {last (files st)}"
    by (metis Un_insert_right list.set(1) list.set(2) set_append sup_bot.right_neutral)
  with assms False show ?thesis by (auto simp: loop_inv_def files_shape_def)
qed

lemma open_output_mid:
  assumes inv: "loop_inv a st" and op: "open_output e a st = Next st1"
  shows "mid_inv a st1"
proof (cases "line_count_current_file st = 0")
  case False
  from op False have "st1 = st" by (rule open_output_Next_same)
  with inv False show ?thesis by (auto simp: loop_inv_def mid_inv_def)
next
  case True
  let ?k = "length (files st)"
  let ?name = "shard_name (output_prefix a) (int ?k + 1)"
  from inv True have fi: "file_index st = int ?k + 1" by (simp add: loop_inv_def)
  from inv have names: "map fst (files st) = shard_names a ?k"
    by (simp add: loop_inv_def files_shape_def)
  have "?name \<notin> fst ` set (files st)"
    using shard_name_fresh [of a ?k] names by (metis list.set_map)
  then have upd: "AList.update ?name [] (files st) = files st @ [(?name, [])]"
    by (rule update_fresh)
  note f = open_output_Next_fields [OF op True, unfolded fi upd]
  from loop_inv_all_full [OF inv True] have full: "\<forall>f\<in>set (files st). length (snd f) = cap a" .
  from inv have pc: "total_processed_count st = int (length (request_lines st))"
    by (simp add: loop_inv_def files_shape_def)
  have "files_shape a st1"
    using f(1,3) names full pc
    by (auto simp: files_shape_def shard_names_Suc request_lines_def)
  with f True inv show ?thesis
    by (simp add: mid_inv_def loop_inv_def)
qed

lemma open_output_lines:
  assumes inv: "loop_inv a st" and op: "open_output e a st = Next st1"
  shows "request_lines st1 = request_lines st"
    and "total_processed_count st1 = total_processed_count st"
    and "total_skipped_count st1 = total_skipped_count st"
    and "line_count_current_file st1 = line_count_current_file st"
proof -
  have "request_lines st1 = request_lines st \<and> total_processed_count st1 = total_processed_count st
    \<and> total_skipped_count st1 = total_skipped_count st
    \<and> line_count_current_file st1 = line_count_current_file st"
  proof (cases "line_count_current_file st = 0")
    case False
    from op False have "st1 = st" by (rule open_output_Next_same)
    then show ?thesis by simp
  next
    case True
    let ?k = "length (files st)"
    let ?name = "shard_name (output_prefix a) (int ?k + 1)"
    from inv True have fi: "file_index st = int ?k + 1" by (simp add: loop_inv_def)
    from inv have names: "map fst (files st) = shard_names a ?k"
      by (simp add: loop_inv_def files_shape_def)
    have "?name \<notin> fst ` set (files st)"
      using shard_name_fresh [of a ?k] names by (metis list.set_map)
    then have upd: "AList.update ?name [] (files st) = files st @ [(?name, [])]"
      by (rule update_fresh)
    note f = open_output_Next_fields [OF op True, unfolded fi upd]
    from f show ?thesis by (simp add: request_lines_def)
  qed
  then show "request_lines st1 = request_lines st"
    and "total_processed_count st1 = total_processed_count st"
    and "total_skipped_count st1 = total_skipped_count st"
    and "line_count_current_file st1 = line_count_current_file st" by simp_all
qed

lemma mid_inv_distinct: "mid_inv a st \<Longrightarrow> distinct (map fst (files st))"
  by (simp add: mid_inv_def files_shape_def shard_names_distinct)

lemma write_line_Next:
  assumes inv: "mid_inv a st1" and w: "write_line e st1 l = Next st2"
  shows "st2 = st1\<lparr>files := append_last l (files st1)\<rparr>"
    and "\<not> write_fails e (total_processed_count st1)"
proof -
  from inv have o: "outfile st1 = Some \<lparr>hname = fst (last (files st1)), hclosed = False\<rparr>"
    and ne: "files st1 \<noteq> []" by (simp_all add: mid_inv_def)
  note me = map_entry_last [OF ne mid_inv_distinct [OF inv], of "\<lambda>ls. ls @ [l]"]
  from w o me show "st2 = st1\<lparr>files := append_last l (files st1)\<rparr>"
    by (auto simp: write_line_def append_last_def split: if_splits)
  from w o show "\<not> write_fails e (total_processed_count st1)"
    by (auto simp: write_line_def split: if_splits)
qed

lemma write_line_Return:
  assumes inv: "mid_inv a st1" and w: "write_line e st1 l = Return x st2"
  shows "x = ExitWriteError" and "files st2 = files st1"
    and "total_processed_count st2 = total_processed_count st1"
    and "total_skipped_count st2 = total_skipped_count st1"
    and "write_fails e (total_processed_count st1)"
proof -
  from inv have o: "outfile st1 = Some \<lparr>hname = fst (last (files st1)), hclosed = False\<rparr>"
    by (simp add: mid_inv_def)
  from w o show "x = ExitWriteError" and "files st2 = files st1"
    and "total_processed_count st2 = total_processed_count st1"
    and "total_skipped_count st2 = total_skipped_count st1"
    and "write_fails e (total_processed_count st1)"
    by (auto simp: write_line_def split: if_splits)
qed

lemma write_line_no_Raise:
  assumes inv: "mid_inv a st1"
  shows "write_line e st1 l \<noteq> Raise exc st2"
proof -
  from inv have o: "outfile st1 = Some \<lparr>hname = fst (last (files st1)), hclosed = False\<rparr>"
    by (simp add: mid_inv_def)
  then show ?thesis by (auto simp: write_line_def split: if_splits)
qed

lemma write_line_ok:
  assumes inv: "mid_inv a st1" and ok: "\<not> write_fails e (total_processed_count st1)"
  shows "write_line e st1 l = Next (st1\<lparr>files := append_last l (files st1)\<rparr>)"
proof -
  from inv have o: "outfile st1 = Some \<lparr>hname = fst (last (files st1)), hclosed = False\<rparr>"
    and ne: "files st1 \<noteq> []" by (simp_all add: mid_inv_def)
  note me = map_entry_last [OF ne mid_inv_distinct [OF inv], of "\<lambda>ls. ls @ [l]"]
  from o ok me show ?thesis by (simp add: write_line_def append_last_def)
qed

lemma count_line_fields [simp]:
  "files (count_line a st) = files st"
  "total_processed_count (count_line a st) = total_processed_count st + 1"
  "total_skipped_count (count_line a st) = total_skipped_count st"
  "outfile (count_line a st) = outfile st"
  "current_output_filename (count_line a st) = current_output_filename st"
  "line_count_current_file (count_line a st) =
     (if line_count_current_file st + 1 \<ge> max_lines a then 0 else line_count_current_file st + 1)"
  "file_index (count_line a st) =
     (if line_count_current_file st + 1 \<ge> max_lines a then file_index st + 1 else file_index st)"
  by (simp_all add: count_line_def Let_def)

lemma append_last_props:
  assumes "fs \<noteq> []"
  shows "map fst (append_last l fs) = map fst fs"
    and "butlast (append_last l fs) = butlast fs"
    and "last (append_last l fs) = (fst (last fs), snd (last fs) @ [l])"
    and "length (append_last l fs) = length fs"
    and "concat (map snd (append_last l fs)) = concat (map snd fs) @ [l]"
    and "append_last l fs \<noteq> []"
    and "set (append_last l fs) = set (butlast fs) \<union> {(fst (last fs), snd (last fs) @ [l])}"
proof -
  from assms have d: "fs = butlast fs @ [last fs]" by simp
  show "map fst (append_last l fs) = map fst fs"
    by (subst (2) d) (simp add: append_last_def del: append_butlast_last_id)
  show "butlast (append_last l fs) = butlast fs" by (simp add: append_last_def)
  show "last (append_last l fs) = (fst (last fs), snd (last fs) @ [l])" by (simp add: append_last_def)
  show "length (append_last l fs) = length fs" using assms by (simp add: append_last_def)
  show "concat (map snd (append_last l fs)) = concat (map snd fs) @ [l]"
    by (subst (2) d) (simp add: append_last_def del: append_butlast_last_id)
  show "append_last l fs \<noteq> []" by (simp add: append_last_def)
  show "set (append_last l fs) = set (butlast fs) \<union> {(fst (last fs), snd (last fs) @ [l])}"
    by (simp add: append_last_def)
qed

lemma count_line_inv:
  assumes inv: "mid_inv a st1"
  shows "loop_inv a (count_line a (st1\<lparr>files := append_last l (files st1)\<rparr>))"
proof -
  let ?fs = "files st1"
  let ?lc = "line_count_current_file st1"
  from inv have ne: "?fs \<noteq> []" and lc0: "0 \<le> ?lc" and lcc: "?lc < int (cap a)"
    and fi: "file_index st1 = int (length ?fs)"
    and ll: "length (snd (last ?fs)) = nat ?lc"
    and o: "outfile st1 = Some \<lparr>hname = fst (last ?fs), hclosed = False\<rparr>"
    and sh: "files_shape a st1"
    by (simp_all add: mid_inv_def)
  note ap = append_last_props [OF ne, of l]
  from sh have names: "map fst ?fs = shard_names a (length ?fs)"
    and full: "\<forall>f\<in>set (butlast ?fs). length (snd f) = cap a"
    and pc: "total_processed_count st1 = int (length (concat (map snd ?fs)))"
    by (simp_all add: files_shape_def request_lines_def)
  have capd: "int (cap a) = max 1 (max_lines a)" by (simp add: cap_def)
  have shape: "files_shape a (count_line a (st1\<lparr>files := append_last l ?fs\<rparr>))"
    using names full pc ll lc0 lcc
    by (auto simp: files_shape_def request_lines_def ap)
  show ?thesis
    unfolding loop_inv_def
    using shape lc0 lcc fi ll o capd
    by (auto simp: ap max_def split: if_splits)
qed

lemma count_line_lines:
  assumes inv: "mid_inv a st1"
  shows "request_lines (count_line a (st1\<lparr>files := append_last l (files st1)\<rparr>)) = request_lines st1 @ [l]"
proof -
  from inv have ne: "files st1 \<noteq> []" by (simp add: mid_inv_def)
  show ?thesis by (simp add: request_lines_def append_last_props [OF ne])
qed

lemma create_user_prompt_well_formed:
  "str_or_falsy abstract \<Longrightarrow> str_or_falsy authors \<Longrightarrow>
   create_user_prompt f title authors abstract \<noteq> Inl exc"
  by (auto simp: create_user_prompt_def str_or_falsy_def py_strip_def
           split: json.splits if_splits sum.splits)

lemma create_user_prompt_Inl:
  "create_user_prompt f title authors abstract = Inl exc \<Longrightarrow> exc = AttributeError"
  by (auto simp: create_user_prompt_def py_strip_def split: json.splits if_splits sum.splits)

lemma skip_record_inv:
  "loop_inv a st \<Longrightarrow> loop_inv a (skip_record m st)"
  by (simp add: loop_inv_def skip_record_def files_shape_def request_lines_def)

lemma skip_record_fields [simp]:
  "files (skip_record m st) = files st"
  "total_processed_count (skip_record m st) = total_processed_count st"
  "total_skipped_count (skip_record m st) = total_skipped_count st + 1"
  "file_index (skip_record m st) = file_index st"
  "line_count_current_file (skip_record m st) = line_count_current_file st"
  "outfile (skip_record m st) = outfile st"
  "out (skip_record m st) = out st @ [m]"
  by (simp_all add: skip_record_def)

lemma request_lines_skip [simp]: "request_lines (skip_record m st) = request_lines st"
  by (simp add: request_lines_def)

lemma process_record_cases [consumes 1, case_names skip emit ret raise]:
  assumes inv: "loop_inv a st"
  obtains
    st' where "process_record e a st r = Next st'" "loop_inv a st'"
      "request_lines st' = request_lines st"
      "total_processed_count st' = total_processed_count st"
      "total_skipped_count st' = total_skipped_count st + 1"
  | st' l where "process_record e a st r = Next st'" "loop_inv a st'"
      "request_lines st' = request_lines st @ [l]" "built_from e a r l"
      "total_processed_count st' = total_processed_count st + 1"
      "total_skipped_count st' = total_skipped_count st"
  | x st' where "process_record e a st r = Return x st'" "files_shape a st'"
      "request_lines st' = request_lines st"
      "total_processed_count st' = total_processed_count st"
      "total_skipped_count st' = total_skipped_count st"
      "(x = ExitOpenError \<and> nonempty_files st') \<or> x = ExitWriteError" "\<not> io_ok e"
  | "process_record e a st r = Raise AttributeError st" "\<not> well_formed_record r"
proof (cases r)
  case (JDict d)
  let ?id = "dict_get d (ascii ''_id'')"
  let ?title = "dict_get d (ascii ''title'')"
  let ?abs = "dict_get d (ascii ''abstract'')"
  let ?auth = "dict_get d (ascii ''author'')"
  show ?thesis
  proof (cases "truthy ?id \<and> truthy ?title \<and> truthy ?abs")
    case False
    then have "process_record e a st r = Next (skip_record (MsgSkipMissing r) st)"
      by (auto simp: process_record_def JDict Let_def)
    then show ?thesis using skip_record_inv [OF inv]
      by (intro that(1) [of "skip_record (MsgSkipMissing r) st"]) simp_all
  next
    case True
    note tr = True
    show ?thesis
    proof (cases "create_user_prompt (py_str e) ?title ?auth ?abs")
      case (Inl exc)
      then have "process_record e a st r = Raise AttributeError st"
        using tr create_user_prompt_Inl [OF Inl] by (simp add: process_record_def JDict Let_def)
      moreover have "\<not> well_formed_record r"
        using Inl create_user_prompt_well_formed [of ?abs ?auth "py_str e" ?title exc]
        by (auto simp: well_formed_record_def JDict)
      ultimately show ?thesis by (rule that(4))
    next
      case (Inr res)
      show ?thesis
      proof (cases res)
        case None
        then have "process_record e a st r = Next (skip_record (MsgSkipEmptyAbstract ?id) st)"
          using tr Inr by (simp add: process_record_def JDict Let_def)
        then show ?thesis using skip_record_inv [OF inv]
          by (intro that(1) [of "skip_record (MsgSkipEmptyAbstract ?id) st"]) simp_all
      next
        case (Some uc)
        let ?l = "jsonl_line e a ?id uc"
        have pr: "process_record e a st r =
            (case open_output e a st of
               Next st1 \<Rightarrow>
                 (case write_line e st1 ?l of
                    Next st2 \<Rightarrow> Next (count_line a st2)
                  | stop \<Rightarrow> stop)
             | stop \<Rightarrow> stop)"
          using tr Inr Some by (simp add: process_record_def JDict Let_def)
        have bf: "built_from e a r ?l"
          using Inr Some by (simp add: built_from_def JDict)
        show ?thesis
        proof (cases "open_output e a st")
          case (Next st1)
          note mid = open_output_mid [OF inv Next]
          note ol = open_output_lines [OF inv Next]
          show ?thesis
          proof (cases "write_line e st1 ?l")
            case w: (Next st2)
            note wn = write_line_Next [OF mid w]
            have p: "process_record e a st r = Next (count_line a st2)"
              using pr Next w by simp
            show ?thesis
            proof (rule that(2) [OF p _ _ bf])
              show "loop_inv a (count_line a st2)"
                unfolding wn(1) by (rule count_line_inv [OF mid])
              show "request_lines (count_line a st2) = request_lines st @ [?l]"
                unfolding wn(1) count_line_lines [OF mid] ol(1) ..
              show "total_processed_count (count_line a st2) = total_processed_count st + 1"
                unfolding wn(1) using ol(2) by simp
              show "total_skipped_count (count_line a st2) = total_skipped_count st"
                unfolding wn(1) using ol(3) by simp
            qed
          next
            case w: (Return x st2)
            note wr = write_line_Return [OF mid w]
            have p: "process_record e a st r = Return x st2"
              using pr Next w by simp
            have "files_shape a st2"
              using files_shape_cong [OF wr(2,3), of a] mid_inv_shape [OF mid] by simp
            moreover have "request_lines st2 = request_lines st"
              using wr(2) ol(1) by (simp add: request_lines_def)
            moreover have "\<not> io_ok e" using wr(5) by (auto simp: io_ok_def)
            ultimately show ?thesis
              using wr ol by (intro that(3) [OF p]) simp_all
          next
            case w: (Raise exc st2)
            with write_line_no_Raise [OF mid] show ?thesis by blast
          qed
        next
          case (Return x st1)
          note orr = open_output_Return [OF Return]
          have p: "process_record e a st r = Return x st1"
            using pr Return by simp
          have "files_shape a st1"
            using files_shape_cong [OF orr(2,3), of a] loop_inv_shape [OF inv] by simp
          moreover have "request_lines st1 = request_lines st"
            using orr(2) by (simp add: request_lines_def)
          moreover have "nonempty_files st1"
            using loop_inv_nonempty [OF inv] orr(2) by (auto simp: nonempty_files_def)
          moreover have "\<not> io_ok e" using orr(6) by (auto simp: io_ok_def)
          ultimately show ?thesis
            using orr by (intro that(3) [OF p]) simp_all
        next
          case (Raise exc st1)
          with open_output_no_Raise show ?thesis by blast
        qed
      qed
    qed
  qed
qed (auto simp: process_record_def well_formed_record_def intro: that(4))

lemma loop_inv_nonempty_files: "loop_inv a st \<Longrightarrow> nonempty_files st"
  using loop_inv_nonempty by (auto simp: nonempty_files_def)

lemma loop_post_skip:
  assumes "loop_post e a st' rs fl" "request_lines st' = request_lines st"
    "total_processed_count st' = total_processed_count st"
    "total_skipped_count st' = total_skipped_count st + 1"
  shows "loop_post e a st (r # rs) fl"
proof -
  from assms(1) obtain ps ls where p: "subseq ps rs" "list_all2 (built_from e a) ps ls"
      "request_lines (flow_state fl) = request_lines st' @ ls"
    by (auto simp: loop_post_def)
  then have "subseq ps (r # rs) \<and> list_all2 (built_from e a) ps ls \<and>
      request_lines (flow_state fl) = request_lines st @ ls"
    using assms(2) by (simp add: list_emb_Cons)
  then have ex: "\<exists>ps ls. subseq ps (r # rs) \<and> list_all2 (built_from e a) ps ls \<and>
      request_lines (flow_state fl) = request_lines st @ ls" by blast
  from assms(1,3,4) ex show ?thesis
    unfolding loop_post_def by (cases fl) auto
qed

lemma loop_post_emit:
  assumes "loop_post e a st' rs fl" "request_lines st' = request_lines st @ [l]"
    "built_from e a r l"
    "total_processed_count st' = total_processed_count st + 1"
    "total_skipped_count st' = total_skipped_count st"
  shows "loop_post e a st (r # rs) fl"
proof -
  from assms(1) obtain ps ls where p: "subseq ps rs" "list_all2 (built_from e a) ps ls"
      "request_lines (flow_state fl) = request_lines st' @ ls"
    by (auto simp: loop_post_def)
  then have "subseq (r # ps) (r # rs) \<and> list_all2 (built_from e a) (r # ps) (l # ls) \<and>
      request_lines (flow_state fl) = request_lines st @ (l # ls)"
    using assms(2,3) by simp
  then have ex: "\<exists>ps ls. subseq ps (r # rs) \<and> list_all2 (built_from e a) ps ls \<and>
      request_lines (flow_state fl) = request_lines st @ ls" by blast
  from assms(1,4,5) ex show ?thesis
    unfolding loop_post_def by (cases fl) auto
qed

lemma loop_post_empty:
  "request_lines (flow_state fl) = request_lines st \<Longrightarrow>
   \<exists>ps ls. subseq ps rs \<and> list_all2 (built_from e a) ps ls \<and>
      request_lines (flow_state fl) = request_lines st @ ls"
  by (rule exI [of _ "[]"], rule exI [of _ "[]"]) simp

lemma process_records_post:
  "loop_inv a st \<Longrightarrow> loop_post e a st rs (process_records e a st rs)"
proof (induction rs arbitrary: st)
  case Nil
  then show ?case
    using loop_post_empty [of "Next st" st "[]" e a]
    by (simp add: loop_post_def loop_inv_shape)
next
  case (Cons r rs)
  from Cons.prems show ?case
  proof (cases rule: process_record_cases [of a st e r])
    case (skip st')
    from Cons.IH [OF skip(2)] skip show ?thesis
      by (simp add: loop_post_skip)
  next
    case (emit st' l)
    from Cons.IH [OF emit(2)] emit show ?thesis
      by (simp add: loop_post_emit)
  next
    case (ret x st')
    then show ?thesis
      using loop_post_empty [of "Return x st'" st "r # rs" e a]
      by (simp add: loop_post_def)
  next
    case raise
    then show ?thesis
      using loop_post_empty [of "Raise AttributeError st" st "r # rs" e a] Cons.prems
      by (simp add: loop_post_def loop_inv_shape loop_inv_nonempty_files)
  qed
qed

lemma process_records_completes:
  assumes inv: "loop_inv a st" and wf: "\<forall>r\<in>set rs. well_formed_record r" and io: "io_ok e"
  shows "\<exists>st'. process_records e a st rs = Next st'"
  using process_records_post [OF inv, of e rs] wf io
  by (cases "process_records e a st rs") (auto simp: loop_post_def)

lemma subseq_distinct: "subseq xs ys \<Longrightarrow> distinct ys \<Longrightarrow> distinct xs"
proof (induction rule: list_emb.induct)
  case (list_emb_Cons2 x y xs ys)
  then show ?case by (auto elim: list_emb_set)
qed auto

lemma subseq_subset: "subseq xs ys \<Longrightarrow> set xs \<subseteq> set ys"
  by (auto elim: list_emb_set)

lemma loop_inv_print [simp]: "loop_inv a (print m st) = loop_inv a st"
  by (simp add: loop_inv_def files_shape_def)

lemma files_shape_print [simp]: "files_shape a (print m st) = files_shape a st"
  by (simp add: files_shape_def)

lemma files_shape_close [simp]: "files_shape a (close_outfile st) = files_shape a st"
  by (simp add: files_shape_def)

lemma nonempty_files_print [simp]: "nonempty_files (print m st) = nonempty_files st"
  by (simp add: nonempty_files_def)

lemma nonempty_files_close [simp]: "nonempty_files (close_outfile st) = nonempty_files st"
  by (simp add: nonempty_files_def)

lemma outer_handler_AttributeError:
  "outer_handler a AttributeError st = (ExitUnexpected, close_outfile (print MsgUnexpected st))"
  by (simp add: outer_handler_def)

lemma outer_handler_state:
  "outer_handler a exc st = (x, st') \<Longrightarrow>
   files st' = files st \<and> total_processed_count st' = total_processed_count st \<and>
   total_skipped_count st' = total_skipped_count st \<and>
   x \<in> {ExitInputNotFound, ExitReadError, ExitUnexpected}"
  by (auto simp: outer_handler_def split: py_exc.splits)

lemma inner_handler_state:
  "inner_handler a exc st = (x, st') \<Longrightarrow>
   files st' = files st \<and> total_processed_count st' = total_processed_count st \<and>
   total_skipped_count st' = total_skipped_count st \<and>
   x \<in> {ExitInvalidJSON, ExitValueError, ExitInputNotFound, ExitReadError, ExitUnexpected}"
  by (auto simp: inner_handler_def split: py_exc.splits dest: outer_handler_state)

lemma final_report_fields [simp]:
  "files (final_report st) = files st"
  "total_processed_count (final_report st) = total_processed_count st"
  "total_skipped_count (final_report st) = total_skipped_count st"
  "file_index (final_report st) = file_index st"
  "line_count_current_file (final_report st) = line_count_current_file st"
  by (simp_all add: final_report_def Let_def split: option.splits)

lemma files_shape_final [simp]: "files_shape a (final_report st) = files_shape a st"
  by (simp add: files_shape_def request_lines_def)

lemma nonempty_files_final [simp]: "nonempty_files (final_report st) = nonempty_files st"
  by (simp add: nonempty_files_def)

lemma request_lines_final [simp]: "request_lines (final_report st) = request_lines st"
  by (simp add: request_lines_def)


lemma clean_print [simp]: "clean (print m st) = clean st"
  by (simp add: clean_def)

lemma clean_init [simp]: "clean init_state"
  by (simp add: clean_def init_state_def)

lemma clean_outer: "clean st \<Longrightarrow> outer_handler a exc st = (x, st') \<Longrightarrow>
   clean st' \<and> x \<in> {ExitInputNotFound, ExitReadError, ExitUnexpected}"
  by (drule outer_handler_state) (simp add: clean_def)

lemma clean_inner: "clean st \<Longrightarrow> inner_handler a exc st = (x, st') \<Longrightarrow>
   clean st' \<and> x \<in> {ExitInvalidJSON, ExitValueError, ExitInputNotFound, ExitReadError, ExitUnexpected}"
  by (drule inner_handler_state) (simp add: clean_def)

section \<open>The whole run\<close>

lemma load_metadata_cases [case_names makedirs go]:
  obtains "load_metadata e a =
      Inl (ExitMakedirs, print (MsgErrMakedirs (dirname e (output_prefix a))) init_state)"
      "dirname e (output_prefix a) \<noteq> [] \<and> \<not> path_exists e (dirname e (output_prefix a)) \<and>
       makedirs_fails e (dirname e (output_prefix a))"
  | st1 where "clean st1" "loop_inv a st1"
      "load_metadata e a =
        (case open_input e (input_path a) of
           Some exc \<Rightarrow> Inl (outer_handler a exc st1)
         | None \<Rightarrow>
             (case read_input e (input_path a) of
                Inl exc \<Rightarrow> Inl (inner_handler a exc st1)
              | Inr json_str \<Rightarrow>
                  (case json_loads e (repair json_str) of
                     Inl exc \<Rightarrow> Inl (inner_handler a exc (print MsgParsing (print MsgFixing st1)))
                   | Inr (JList metadata_list) \<Rightarrow>
                       Inr (print MsgParsing (print MsgFixing st1), metadata_list)
                   | Inr _ \<Rightarrow>
                       Inl (inner_handler a ValueError (print MsgParsing (print MsgFixing st1))))))"
proof -
  let ?d = "dirname e (output_prefix a)"
  let ?made = "?d \<noteq> [] \<and> \<not> path_exists e ?d"
  show ?thesis
  proof (cases "?made \<and> makedirs_fails e ?d")
    case True
    then have "load_metadata e a = Inl (ExitMakedirs, print (MsgErrMakedirs ?d) init_state)"
      by (auto simp: load_metadata_def Let_def)
    moreover from True have "?d \<noteq> [] \<and> \<not> path_exists e ?d \<and> makedirs_fails e ?d" by simp
    ultimately show ?thesis by (rule that(1))
  next
    case False
    define st1 where "st1 = print (MsgOutputPrefix (output_prefix a) (max_lines a))
        (print (MsgStarting (input_path a))
           (if ?made then print (MsgCreatedDir ?d) init_state else init_state))"
    have "clean st1" by (simp add: st1_def)
    moreover have "loop_inv a st1" by (simp add: st1_def init_inv)
    moreover from False have "load_metadata e a =
        (case open_input e (input_path a) of
           Some exc \<Rightarrow> Inl (outer_handler a exc st1)
         | None \<Rightarrow>
             (case read_input e (input_path a) of
                Inl exc \<Rightarrow> Inl (inner_handler a exc st1)
              | Inr json_str \<Rightarrow>
                  (case json_loads e (repair json_str) of
                     Inl exc \<Rightarrow> Inl (inner_handler a exc (print MsgParsing (print MsgFixing st1)))
                   | Inr (JList metadata_list) \<Rightarrow>
                       Inr (print MsgParsing (print MsgFixing st1), metadata_list)
                   | Inr _ \<Rightarrow>
                       Inl (inner_handler a ValueError (print MsgParsing (print MsgFixing st1))))))"
      unfolding load_metadata_def Let_def st1_def by (simp only: if_False if_True)
    ultimately show ?thesis by (rule that(2))
  qed
qed

lemma load_metadata_Inl:
  assumes "load_metadata e a = Inl (x, st)"
  shows "clean st" and "x \<in> {ExitMakedirs, ExitInvalidJSON, ExitValueError, ExitInputNotFound,
              ExitReadError, ExitUnexpected}"
proof -
  have "clean st \<and> x \<in> {ExitMakedirs, ExitInvalidJSON, ExitValueError, ExitInputNotFound,
              ExitReadError, ExitUnexpected}"
  proof (cases rule: load_metadata_cases [of e a])
    case makedirs
    with assms show ?thesis by auto
  next
    case (go st1)
    have c2: "clean (print MsgParsing (print MsgFixing st1))" using go(1) by simp
    from assms [unfolded go(3)] show ?thesis
      using clean_outer [OF go(1), of a _ x st] clean_inner [OF go(1), of a _ x st]
        clean_inner [OF c2, of a _ x st]
      by (auto split: option.splits sum.splits json.splits)
  qed
  then show "clean st" and "x \<in> {ExitMakedirs, ExitInvalidJSON, ExitValueError, ExitInputNotFound,
              ExitReadError, ExitUnexpected}" by simp_all
qed

lemma load_metadata_Inr:
  assumes "load_metadata e a = Inr (st0, recs)"
  shows "loop_inv a st0" and "clean st0"
proof -
  have "loop_inv a st0 \<and> clean st0"
  proof (cases rule: load_metadata_cases [of e a])
    case makedirs
    with assms show ?thesis by simp
  next
    case (go st1)
    from assms [unfolded go(3)] have "st0 = print MsgParsing (print MsgFixing st1)"
      by (auto split: option.splits sum.splits json.splits)
    with go(1,2) show ?thesis by simp
  qed
  then show "loop_inv a st0" and "clean st0" by simp_all
qed

lemma convert_post:
  assumes load: "load_metadata e a = Inr (st0, recs)"
    and run: "convert_and_split_metadata e a = (x, st)"
  shows "run_post e a recs x st"
proof (cases "recs = []")
  case True
  with load run have "x = ExitEmptyInput" "st = print MsgEmptyInput st0"
    by (simp_all add: convert_and_split_metadata_def)
  with load_metadata_Inr [OF load] True show ?thesis
    by (simp add: run_post_def loop_inv_shape nonempty_files_def request_lines_def clean_def)
next
  case False
  let ?st1 = "print (MsgLoaded (length recs)) st0"
  let ?fl = "process_records e a ?st1 recs"
  note l0 = load_metadata_Inr [OF load]
  from l0 have inv: "loop_inv a ?st1" by simp
  from l0 have rl0: "request_lines ?st1 = []" by (simp add: request_lines_def clean_def)
  from l0 have c0: "total_processed_count ?st1 = 0" "total_skipped_count ?st1 = 0"
    by (simp_all add: clean_def)
  note post = process_records_post [OF inv, of e recs]
  from post obtain ps ls where pl: "subseq ps recs" "list_all2 (built_from e a) ps ls"
      "request_lines (flow_state ?fl) = ls"
    unfolding loop_post_def rl0 by auto
  from load run False have r: "(x, st) =
      (case ?fl of Next st3 \<Rightarrow> (ExitCompleted, final_report st3)
       | Return x st3 \<Rightarrow> (x, st3) | Raise exc st3 \<Rightarrow> outer_handler a exc st3)"
    by (simp add: convert_and_split_metadata_def)
  show ?thesis
  proof (cases ?fl)
    case (Next st3)
    with r have "x = ExitCompleted" "st = final_report st3" by simp_all
    with post pl Next c0 show ?thesis
      by (auto simp: run_post_def loop_post_def loop_inv_shape loop_inv_nonempty_files)
  next
    case (Return x' st3)
    with r have "x = x'" "st = st3" by simp_all
    with post pl Return c0 show ?thesis
      by (auto simp: run_post_def loop_post_def)
  next
    case (Raise exc st3)
    with post have exc: "exc = AttributeError" by (simp add: loop_post_def)
    with r Raise have "x = ExitUnexpected" "st = close_outfile (print MsgUnexpected st3)"
      by (simp_all add: outer_handler_AttributeError)
    with post pl Raise c0 show ?thesis
      by (auto simp: run_post_def loop_post_def)
  qed
qed

lemma convert_shape_always:
  assumes run: "convert_and_split_metadata e a = (x, st)"
  shows "files_shape a st"
proof (cases "load_metadata e a")
  case (Inl left)
  with run have "load_metadata e a = Inl (x, st)" by (simp add: convert_and_split_metadata_def)
  from load_metadata_Inl [OF this] show ?thesis
    by (simp add: files_shape_def request_lines_def shard_names_def clean_def)
next
  case (Inr p)
  then obtain st0 recs where "load_metadata e a = Inr (st0, recs)" by (cases p) auto
  from convert_post [OF this run] show ?thesis by (simp add: run_post_def)
qed

lemma convert_nonempty_always:
  assumes run: "convert_and_split_metadata e a = (x, st)" and x: "x \<noteq> ExitWriteError"
  shows "nonempty_files st"
proof (cases "load_metadata e a")
  case (Inl left)
  with run have "load_metadata e a = Inl (x, st)" by (simp add: convert_and_split_metadata_def)
  from load_metadata_Inl [OF this] show ?thesis
    by (simp add: nonempty_files_def clean_def)
next
  case (Inr p)
  then obtain st0 recs where "load_metadata e a = Inr (st0, recs)" by (cases p) auto
  from convert_post [OF this run] x show ?thesis by (simp add: run_post_def)
qed

section \<open>The concrete run\<close>

lemma example_repair: "repair example_text = example_text"
  by (simp add: repair_def example_text_def ascii_def backslash_def dquote_def comma_def
      rbracket_def control_class_def py_isspace_def)

lemma example_load:
  "load_metadata example_env example_args =
     Inr (print MsgParsing (print MsgFixing
            (print (MsgOutputPrefix (ascii ''out'') 1)
               (print (MsgStarting (ascii ''in.json'')) init_state))),
          example_records)"
  by (simp add: load_metadata_def example_env_def example_args_def example_repair Let_def)

lemma example_env_fields:
  "py_str example_env = (\<lambda>v. [])" "open_fails example_env = (\<lambda>name. False)"
  "write_fails example_env = (\<lambda>n. False)"
  by (simp_all add: example_env_def)

lemma example_args_fields:
  "output_prefix example_args = ascii ''out''" "max_lines example_args = 1"
  "model_name example_args = ascii ''glm-4-flash''"
  "system_prompt example_args = DEFAULT_SYSTEM_PROMPT"
  "input_path example_args = ascii ''in.json''"
  by (simp_all add: example_args_def)

lemmas run_defs =
  convert_and_split_metadata_def process_record_def open_output_def close_previous_def
  open_shard_def write_line_def
  count_line_def skip_record_def print_def final_report_def jsonl_line_def shard_name_def
  str_of_int_def dict_get_def py_format_def py_strip_def strip_def py_isspace_def
  init_state_def Let_def close_outfile_def create_user_prompt_def ascii_def
  digits.simps [of 1] digits.simps [of "Suc 0"]

lemma example_run:
  "fst (convert_and_split_metadata example_env example_args) = ExitCompleted"
  "map (\<lambda>f. (fst f, map custom_id (snd f)))
     (files (snd (convert_and_split_metadata example_env example_args))) =
     [(ascii ''out_part_1.jsonl'', [ascii ''extract-p1''])]"
  "total_processed_count (snd (convert_and_split_metadata example_env example_args)) = 1"
  "total_skipped_count (snd (convert_and_split_metadata example_env example_args)) = 1"
  "MsgSummary 1 2 \<in> set (out (snd (convert_and_split_metadata example_env example_args)))"
  by (simp_all add: run_defs example_load example_records_def example_env_fields
      example_args_fields)

lemma example_io_ok: "io_ok example_env"
  by (simp add: io_ok_def example_env_def)

lemma example_well_formed: "\<forall>r\<in>set example_records. well_formed_record r"
  by (simp add: example_records_def well_formed_record_def str_or_falsy_def dict_get_def ascii_def)

lemma example_ids:
  "\<forall>r\<in>set example_records. \<exists>s. paper_id_of r = JStr s"
  "distinct (map paper_id_of example_records)"
  by (simp_all add: example_records_def paper_id_of_def dict_get_def ascii_def)

section \<open>Counts and shards\<close>

text \<open>
  C1. Every run leaves as many request lines in the shard files as it has counted
  processed records. When the parsed list consists of well-formed records and no
  shard fails to open or to be written, the run ends normally (or with the message
  for an empty list) and the processed count plus the skipped count is the number of
  elements of the list.
\<close>

theorem one_line_per_processed_record:
  assumes run: "convert_and_split_metadata e a = (x, st)"
  shows "int (length (request_lines st)) = total_processed_count st \<and>
         (\<forall>st0 recs. load_metadata e a = Inr (st0, recs) \<and>
                      (\<forall>r\<in>set recs. well_formed_record r) \<and> io_ok e \<longrightarrow>
            (x = ExitCompleted \<or> x = ExitEmptyInput) \<and>
            total_processed_count st + total_skipped_count st = int (length recs))"
proof (intro conjI allI impI)
  from convert_shape_always [OF run]
  show "int (length (request_lines st)) = total_processed_count st"
    by (simp add: files_shape_def)
next
  fix st0 recs
  assume h: "load_metadata e a = Inr (st0, recs) \<and>
      (\<forall>r\<in>set recs. well_formed_record r) \<and> io_ok e"
  then have "run_post e a recs x st" using convert_post run by blast
  with h show "x = ExitCompleted \<or> x = ExitEmptyInput"
    by (auto simp: run_post_def)
  with \<open>run_post e a recs x st\<close>
  show "total_processed_count st + total_skipped_count st = int (length recs)"
    by (auto simp: run_post_def)
qed

theorem one_line_per_processed_record_witness:
  "int (length (request_lines (snd (convert_and_split_metadata example_env example_args)))) =
     total_processed_count (snd (convert_and_split_metadata example_env example_args)) \<and>
   total_processed_count (snd (convert_and_split_metadata example_env example_args)) +
     total_skipped_count (snd (convert_and_split_metadata example_env example_args)) =
     int (length example_records)"
  using one_line_per_processed_record [of example_env example_args
      "fst (convert_and_split_metadata example_env example_args)"
      "snd (convert_and_split_metadata example_env example_args)"]
    example_load example_io_ok example_well_formed
  by simp

lemma full_disk_load:
  "load_metadata full_disk_env example_args =
     Inr (print MsgParsing (print MsgFixing
            (print (MsgOutputPrefix (ascii ''out'') 1)
               (print (MsgStarting (ascii ''in.json'')) init_state))),
          example_records)"
  by (simp add: load_metadata_def full_disk_env_def example_env_def example_args_def
      example_repair Let_def)

lemma full_disk_env_fields:
  "py_str full_disk_env = (\<lambda>v. [])" "open_fails full_disk_env = (\<lambda>name. False)"
  "write_fails full_disk_env = (\<lambda>n. True)"
  by (simp_all add: full_disk_env_def example_env_def)

text \<open>
  C2, as stated, fails: a shard that was created can hold no line. The shard is
  created by line 146 before the request is written; when that write fails, the run
  closes the file and returns (lines 173 to 176). Here the chunk size is 1, every
  write fails, and the run ends on the write error with part 1 created and empty.
\<close>

theorem failed_write_leaves_empty_shard:
  "0 < max_lines example_args \<and>
   fst (convert_and_split_metadata full_disk_env example_args) = ExitWriteError \<and>
   map (\<lambda>f. (fst f, length (snd f)))
     (files (snd (convert_and_split_metadata full_disk_env example_args))) =
     [(ascii ''out_part_1.jsonl'', 0)]"
  by (simp add: run_defs full_disk_load example_records_def full_disk_env_fields
      example_args_fields)

text \<open>
  C2, amended. For a positive chunk size, whichever way the run ends: no shard file
  holds more than \<open>max_lines\<close> lines, every shard but the last holds exactly
  \<open>max_lines\<close> (and so at least one), the shards are parts 1, 2, ... without a gap,
  and unless the run stops on a failed write the last shard holds at least one line
  too, a shard being opened only for the request about to be written. In the example,
  one valid and one invalid record with chunk size 1, part 1 is the only shard.
\<close>

theorem shard_sizes:
  assumes pos: "0 < max_lines a" and run: "convert_and_split_metadata e a = (x, st)"
  shows "(\<forall>f\<in>set (files st). int (length (snd f)) \<le> max_lines a) \<and>
         (\<forall>f\<in>set (butlast (files st)). int (length (snd f)) = max_lines a) \<and>
         (x \<noteq> ExitWriteError \<longrightarrow> (\<forall>f\<in>set (files st). 1 \<le> length (snd f))) \<and>
         map fst (files st) =
           map (\<lambda>i. shard_name (output_prefix a) (int i + 1)) [0..<length (files st)] \<and>
         (\<forall>f\<in>set (butlast (files st)). 1 \<le> length (snd f))"
proof -
  from pos have c: "int (cap a) = max_lines a" by (simp add: cap_def)
  note sh = convert_shape_always [OF run]
  have ne: "x \<noteq> ExitWriteError \<longrightarrow> (\<forall>f\<in>set (files st). 1 \<le> length (snd f))"
  proof
    assume "x \<noteq> ExitWriteError"
    from convert_nonempty_always [OF run this]
    show "\<forall>f\<in>set (files st). 1 \<le> length (snd f)"
      by (auto simp: nonempty_files_def Suc_le_eq)
  qed
  from sh have "\<forall>f\<in>set (files st). int (length (snd f)) \<le> int (cap a)"
    by (simp add: files_shape_def)
  moreover from sh have "\<forall>f\<in>set (butlast (files st)). int (length (snd f)) = int (cap a)"
    by (simp add: files_shape_def)
  moreover from sh have "map fst (files st) =
      map (\<lambda>i. shard_name (output_prefix a) (int i + 1)) [0..<length (files st)]"
    by (simp add: files_shape_def shard_names_def)
  ultimately have three: "(\<forall>f\<in>set (files st). int (length (snd f)) \<le> max_lines a) \<and>
         (\<forall>f\<in>set (butlast (files st)). int (length (snd f)) = max_lines a) \<and>
         (x \<noteq> ExitWriteError \<longrightarrow> (\<forall>f\<in>set (files st). 1 \<le> length (snd f))) \<and>
         map fst (files st) =
           map (\<lambda>i. shard_name (output_prefix a) (int i + 1)) [0..<length (files st)]"
    using ne unfolding c by blast
  then have "\<forall>f\<in>set (butlast (files st)). int (length (snd f)) = max_lines a" by blast
  with pos have "\<forall>f\<in>set (butlast (files st)). 1 \<le> length (snd f)" by auto
  with three show ?thesis by blast
qed

theorem shard_sizes_witness:
  "0 < max_lines example_args \<and>
   list_all (\<lambda>f. int (length (snd f)) \<le> max_lines example_args \<and> 1 \<le> length (snd f))
     (files (snd (convert_and_split_metadata example_env example_args))) \<and>
   map fst (files (snd (convert_and_split_metadata example_env example_args))) =
     [shard_name (output_prefix example_args) 1]"
proof -
  have pos: "0 < max_lines example_args" by (simp add: example_args_def)
  have len: "length (files (snd (convert_and_split_metadata example_env example_args))) = 1"
    using arg_cong [OF example_run(2), of length] by simp
  have run: "convert_and_split_metadata example_env example_args =
      (fst (convert_and_split_metadata example_env example_args),
       snd (convert_and_split_metadata example_env example_args))" by simp
  have x: "fst (convert_and_split_metadata example_env example_args) \<noteq> ExitWriteError"
    by (simp add: example_run(1))
  from shard_sizes [OF pos run] x pos len
  show ?thesis by (simp add: list_all_iff)
qed

lemma built_from_custom_id:
  "built_from e a r l \<Longrightarrow>
   custom_id l = ascii ''extract-'' @ py_format (py_str e) (paper_id_of r)"
  by (auto simp: built_from_def paper_id_of_def jsonl_line_def
           split: json.splits sum.splits option.splits)

lemma list_all2_built_from_ids:
  "list_all2 (built_from e a) ps ls \<Longrightarrow>
   map custom_id ls = map (\<lambda>r. ascii ''extract-'' @ py_format (py_str e) (paper_id_of r)) ps"
  by (induction rule: list_all2_induct) (simp_all add: built_from_custom_id)

text \<open>
  C5. When the \<^verbatim>\<open>_id\<close> values of the records are strings and pairwise distinct, every
  request line written is built from a record of the input and its \<^verbatim>\<open>custom_id\<close> is
  \<^verbatim>\<open>extract-\<close> followed by the \<^verbatim>\<open>_id\<close> of that record, and the \<^verbatim>\<open>custom_id\<close> values of
  all lines written in the run are pairwise distinct.
\<close>

theorem custom_ids_unique:
  assumes load: "load_metadata e a = Inr (st0, recs)"
    and strs: "\<forall>r\<in>set recs. \<exists>s. paper_id_of r = JStr s"
    and dist: "distinct (map paper_id_of recs)"
    and run: "convert_and_split_metadata e a = (x, st)"
  shows "(\<forall>l\<in>set (request_lines st). \<exists>r\<in>set recs. \<exists>s.
            paper_id_of r = JStr s \<and> built_from e a r l \<and>
            custom_id l = ascii ''extract-'' @ s) \<and>
         distinct (map custom_id (request_lines st))"
proof -
  let ?cid = "\<lambda>r. ascii ''extract-'' @ py_format (py_str e) (paper_id_of r)"
  from convert_post [OF load run] obtain ps where
    ps: "subseq ps recs" "list_all2 (built_from e a) ps (request_lines st)"
    by (auto simp: run_post_def)
  have sub: "set ps \<subseteq> set recs" using ps(1) by (rule subseq_subset)
  have first: "\<forall>l\<in>set (request_lines st). \<exists>r\<in>set recs. \<exists>s.
            paper_id_of r = JStr s \<and> built_from e a r l \<and>
            custom_id l = ascii ''extract-'' @ s"
  proof
    fix l assume "l \<in> set (request_lines st)"
    then obtain i where i: "i < length (request_lines st)" "l = request_lines st ! i"
      by (auto simp: in_set_conv_nth)
    with ps(2) have "ps ! i \<in> set ps" "built_from e a (ps ! i) l"
      by (simp_all add: list_all2_conv_all_nth)
    then obtain r where r: "r \<in> set ps" "built_from e a r l" by blast
    with sub strs obtain s where s: "paper_id_of r = JStr s" by blast
    from built_from_custom_id [OF r(2)] s
    have "custom_id l = ascii ''extract-'' @ s" by (simp add: py_format_def)
    with r s sub show "\<exists>r\<in>set recs. \<exists>s.
            paper_id_of r = JStr s \<and> built_from e a r l \<and>
            custom_id l = ascii ''extract-'' @ s" by blast
  qed
  have inj: "inj_on ?cid (set recs)"
  proof (rule inj_onI)
    fix r r' assume r: "r \<in> set recs" "r' \<in> set recs" and eq: "?cid r = ?cid r'"
    from strs r obtain s s' where "paper_id_of r = JStr s" "paper_id_of r' = JStr s'" by blast
    with eq have "paper_id_of r = paper_id_of r'" by (simp add: py_format_def)
    with dist r show "r = r'" by (simp add: distinct_map inj_on_def)
  qed
  from dist have "distinct recs" by (simp add: distinct_map)
  with inj have "distinct (map ?cid recs)" by (simp add: distinct_map)
  moreover have "subseq (map ?cid ps) (map ?cid recs)" using ps(1) by (rule subseq_map)
  ultimately have "distinct (map ?cid ps)" by (rule subseq_distinct [rotated])
  with list_all2_built_from_ids [OF ps(2)] first show ?thesis by simp
qed

theorem custom_ids_unique_witness:
  "map custom_id (request_lines (snd (convert_and_split_metadata example_env example_args))) =
     [ascii ''extract-p1''] \<and>
   distinct (map custom_id
     (request_lines (snd (convert_and_split_metadata example_env example_args))))"
proof -
  have "map custom_id (request_lines (snd (convert_and_split_metadata example_env example_args)))
      = concat (map snd (map (\<lambda>f. (fst f, map custom_id (snd f)))
          (files (snd (convert_and_split_metadata example_env example_args)))))"
    by (simp add: request_lines_def map_concat comp_def)
  then have m: "map custom_id
      (request_lines (snd (convert_and_split_metadata example_env example_args))) =
      [ascii ''extract-p1'']"
    unfolding example_run(2) by simp
  from custom_ids_unique [OF example_load example_ids, of
      "fst (convert_and_split_metadata example_env example_args)"
      "snd (convert_and_split_metadata example_env example_args)"] m
  show ?thesis by simp
qed

section \<open>Records\<close>

lemma dict_get_absent: "map_of d k = None \<Longrightarrow> dict_get d k = JNull"
  by (simp add: dict_get_def)

text \<open>
  C6. A mapping whose \<^verbatim>\<open>_id\<close>, title or abstract is absent or falsy, or whose abstract
  is a string that is empty once stripped, is skipped: the record leaves the state
  unchanged but for a warning and the skip counter, which grows by one, and the loop
  goes on with the next record. And the line built from a record without author has
  as its user prompt the template with \<^verbatim>\<open>N/A\<close> in the place of the authors.
\<close>

theorem defective_record_is_skipped:
  "((\<not> truthy (dict_get d (ascii ''_id'')) \<or> \<not> truthy (dict_get d (ascii ''title'')) \<or>
     \<not> truthy (dict_get d (ascii ''abstract'')) \<or>
     (\<exists>s. dict_get d (ascii ''abstract'') = JStr s \<and> strip s = [])) \<longrightarrow>
    (\<exists>m. process_record e a st (JDict d) = Next (skip_record m st) \<and>
         process_records e a st (JDict d # rest) = process_records e a (skip_record m st) rest \<and>
         total_skipped_count (skip_record m st) = total_skipped_count st + 1 \<and>
         total_processed_count (skip_record m st) = total_processed_count st \<and>
         files (skip_record m st) = files st))
   \<and> (map_of d (ascii ''author'') = None \<and> built_from e a (JDict d) l \<longrightarrow>
        (\<exists>s. dict_get d (ascii ''abstract'') = JStr s \<and>
          messages (body l) =
            [(ascii ''system'', system_prompt a),
             (ascii ''user'',
              ascii (''## Task: Analyze the following academic paper metadata and extract the specified information based SOLELY on the provided Title and Abstract.\<newline>'' @
                     ''\<newline>'' @
                     ''## Input Metadata:\<newline>'' @
                     ''Title: '') @ py_format (py_str e) (dict_get d (ascii ''title'')) @
              ascii (''\<newline>'' @
                     ''Authors: '') @ ascii ''N/A'' @
              ascii (''\<newline>'' @
                     ''Abstract: '') @ strip s @
              ascii (''\<newline>'' @
                     ''\<newline>'' @
                     ''## Extraction Fields and Output Format:\<newline>'') @
              OUTPUT_FORMAT_INSTRUCTIONS @
              ascii (''\<newline>'' @
                     ''\<newline>'' @
                     ''## Extracted JSON:''))]))"
proof (intro conjI impI)
  let ?id = "dict_get d (ascii ''_id'')"
  let ?title = "dict_get d (ascii ''title'')"
  let ?abs = "dict_get d (ascii ''abstract'')"
  let ?auth = "dict_get d (ascii ''author'')"
  assume h: "\<not> truthy ?id \<or> \<not> truthy ?title \<or> \<not> truthy ?abs \<or>
     (\<exists>s. ?abs = JStr s \<and> strip s = [])"
  have "\<exists>m. process_record e a st (JDict d) = Next (skip_record m st)"
  proof (cases "truthy ?id \<and> truthy ?title \<and> truthy ?abs")
    case False
    then have "process_record e a st (JDict d) = Next (skip_record (MsgSkipMissing (JDict d)) st)"
      by (auto simp: process_record_def Let_def)
    then show ?thesis ..
  next
    case True
    with h obtain s where s: "?abs = JStr s" "strip s = []" by blast
    then have "create_user_prompt (py_str e) ?title ?auth ?abs = Inr None"
      using True by (simp add: create_user_prompt_def py_strip_def)
    with True have
      "process_record e a st (JDict d) = Next (skip_record (MsgSkipEmptyAbstract ?id) st)"
      by (simp add: process_record_def Let_def)
    then show ?thesis ..
  qed
  then obtain m where "process_record e a st (JDict d) = Next (skip_record m st)" ..
  then show "\<exists>m. process_record e a st (JDict d) = Next (skip_record m st) \<and>
         process_records e a st (JDict d # rest) = process_records e a (skip_record m st) rest \<and>
         total_skipped_count (skip_record m st) = total_skipped_count st + 1 \<and>
         total_processed_count (skip_record m st) = total_processed_count st \<and>
         files (skip_record m st) = files st"
    by (intro exI [of _ m]) simp
next
  assume h: "map_of d (ascii ''author'') = None \<and> built_from e a (JDict d) l"
  then have au: "dict_get d (ascii ''author'') = JNull" by (simp add: dict_get_absent)
  from h show "\<exists>s. dict_get d (ascii ''abstract'') = JStr s \<and>
          messages (body l) =
            [(ascii ''system'', system_prompt a),
             (ascii ''user'',
              ascii (''## Task: Analyze the following academic paper metadata and extract the specified information based SOLELY on the provided Title and Abstract.\<newline>'' @
                     ''\<newline>'' @
                     ''## Input Metadata:\<newline>'' @
                     ''Title: '') @ py_format (py_str e) (dict_get d (ascii ''title'')) @
              ascii (''\<newline>'' @
                     ''Authors: '') @ ascii ''N/A'' @
              ascii (''\<newline>'' @
                     ''Abstract: '') @ strip s @
              ascii (''\<newline>'' @
                     ''\<newline>'' @
                     ''## Extraction Fields and Output Format:\<newline>'') @
              OUTPUT_FORMAT_INSTRUCTIONS @
              ascii (''\<newline>'' @
                     ''\<newline>'' @
                     ''## Extracted JSON:''))]"
    using au
    by (cases "dict_get d (ascii ''abstract'')")
       (simp_all add: built_from_def create_user_prompt_def py_strip_def jsonl_line_def
          split: if_splits)
qed

theorem defective_record_is_skipped_witness:
  "process_records example_env example_args init_state
      [JDict [(ascii ''_id'', JStr (ascii ''p2'')), (ascii ''title'', JStr (ascii ''T2''))]] =
     Next (skip_record
       (MsgSkipMissing
          (JDict [(ascii ''_id'', JStr (ascii ''p2'')), (ascii ''title'', JStr (ascii ''T2''))]))
       init_state) \<and>
   total_skipped_count (skip_record
       (MsgSkipMissing
          (JDict [(ascii ''_id'', JStr (ascii ''p2'')), (ascii ''title'', JStr (ascii ''T2''))]))
       init_state) = 1"
proof -
  let ?d = "[(ascii ''_id'', JStr (ascii ''p2'')), (ascii ''title'', JStr (ascii ''T2''))]"
  have h: "\<not> truthy (dict_get ?d (ascii ''abstract''))"
    by (simp add: dict_get_def ascii_def)
  from defective_record_is_skipped [of ?d example_env example_args init_state "[]",
      THEN conjunct1] h
  obtain m where m: "process_record example_env example_args init_state (JDict ?d) =
      Next (skip_record m init_state)"
    "process_records example_env example_args init_state [JDict ?d] =
      process_records example_env example_args (skip_record m init_state) []"
    "total_skipped_count (skip_record m init_state) = total_skipped_count init_state + 1"
    by blast
  have "process_record example_env example_args init_state (JDict ?d) =
      Next (skip_record (MsgSkipMissing (JDict ?d)) init_state)"
    using h by (simp add: process_record_def Let_def)
  with m(1) have "skip_record m init_state = skip_record (MsgSkipMissing (JDict ?d)) init_state"
    by simp
  with m(2,3) show ?thesis by (simp add: init_state_def)
qed

text \<open>
  C7. When the directory, the opening and the reading of the input succeed and the
  repaired text does not parse, or parses to a value that is no list, the run ends
  with the diagnostic of that case as its last message; no shard file exists and no
  record is counted as processed or skipped.
\<close>

theorem unparseable_input_aborts:
  assumes dir: "\<not> (dirname e (output_prefix a) \<noteq> [] \<and>
                   \<not> path_exists e (dirname e (output_prefix a)) \<and>
                   makedirs_fails e (dirname e (output_prefix a)))"
    and op: "open_input e (input_path a) = None"
    and rd: "read_input e (input_path a) = Inr json_str"
    and run: "convert_and_split_metadata e a = (x, st)"
  shows "(json_loads e (repair json_str) = Inl JSONDecodeError \<longrightarrow>
            x = ExitInvalidJSON \<and> last (out st) = MsgInvalidJSON (input_path a) \<and>
            files st = [] \<and> total_processed_count st = 0 \<and> total_skipped_count st = 0) \<and>
         (\<forall>v. json_loads e (repair json_str) = Inr v \<and> (\<forall>l. v \<noteq> JList l) \<longrightarrow>
            x = ExitValueError \<and> last (out st) = MsgError \<and>
            files st = [] \<and> total_processed_count st = 0 \<and> total_skipped_count st = 0)"
proof (cases rule: load_metadata_cases [of e a])
  case makedirs
  with dir show ?thesis by simp
next
  case (go st1)
  let ?st2 = "print MsgParsing (print MsgFixing st1)"
  have c2: "clean ?st2" using go(1) by simp
  have A: "x = ExitInvalidJSON \<and> last (out st) = MsgInvalidJSON (input_path a) \<and>
            files st = [] \<and> total_processed_count st = 0 \<and> total_skipped_count st = 0"
    if j: "json_loads e (repair json_str) = Inl JSONDecodeError"
  proof -
    from j go(3) op rd have "load_metadata e a = Inl (inner_handler a JSONDecodeError ?st2)"
      by simp
    with run have "(x, st) = (ExitInvalidJSON, print (MsgInvalidJSON (input_path a)) ?st2)"
      by (simp add: convert_and_split_metadata_def inner_handler_def)
    with c2 show ?thesis by (simp add: clean_def)
  qed
  have B: "x = ExitValueError \<and> last (out st) = MsgError \<and>
            files st = [] \<and> total_processed_count st = 0 \<and> total_skipped_count st = 0"
    if j: "json_loads e (repair json_str) = Inr v \<and> (\<forall>l. v \<noteq> JList l)" for v
  proof -
    from j go(3) op rd have "load_metadata e a = Inl (inner_handler a ValueError ?st2)"
      by (cases v) simp_all
    with run have "(x, st) = (ExitValueError, print MsgError ?st2)"
      by (simp add: convert_and_split_metadata_def inner_handler_def)
    with c2 show ?thesis by (simp add: clean_def)
  qed
  from A B show ?thesis by blast
qed

theorem unparseable_input_aborts_witness:
  "fst (convert_and_split_metadata
          (example_env\<lparr>json_loads := \<lambda>t. Inl JSONDecodeError\<rparr>) example_args) = ExitInvalidJSON \<and>
   files (snd (convert_and_split_metadata
          (example_env\<lparr>json_loads := \<lambda>t. Inl JSONDecodeError\<rparr>) example_args)) = [] \<and>
   fst (convert_and_split_metadata
          (example_env\<lparr>json_loads := \<lambda>t. Inr (JInt 3)\<rparr>) example_args) = ExitValueError \<and>
   files (snd (convert_and_split_metadata
          (example_env\<lparr>json_loads := \<lambda>t. Inr (JInt 3)\<rparr>) example_args)) = []"
proof -
  let ?e1 = "example_env\<lparr>json_loads := \<lambda>t. Inl JSONDecodeError\<rparr>"
  let ?e2 = "example_env\<lparr>json_loads := \<lambda>t. Inr (JInt 3)\<rparr>"
  have r1: "convert_and_split_metadata ?e1 example_args =
      (fst (convert_and_split_metadata ?e1 example_args),
       snd (convert_and_split_metadata ?e1 example_args))" by simp
  have r2: "convert_and_split_metadata ?e2 example_args =
      (fst (convert_and_split_metadata ?e2 example_args),
       snd (convert_and_split_metadata ?e2 example_args))" by simp
  have d1: "\<not> (dirname ?e1 (output_prefix example_args) \<noteq> [] \<and>
      \<not> path_exists ?e1 (dirname ?e1 (output_prefix example_args)) \<and>
      makedirs_fails ?e1 (dirname ?e1 (output_prefix example_args)))"
    by (simp add: example_env_def)
  have d2: "\<not> (dirname ?e2 (output_prefix example_args) \<noteq> [] \<and>
      \<not> path_exists ?e2 (dirname ?e2 (output_prefix example_args)) \<and>
      makedirs_fails ?e2 (dirname ?e2 (output_prefix example_args)))"
    by (simp add: example_env_def)
  have o1: "open_input ?e1 (input_path example_args) = None"
    and o2: "open_input ?e2 (input_path example_args) = None"
    and i1: "read_input ?e1 (input_path example_args) = Inr example_text"
    and i2: "read_input ?e2 (input_path example_args) = Inr example_text"
    by (simp_all add: example_env_def)
  have j1: "json_loads ?e1 (repair example_text) = Inl JSONDecodeError"
    and j2: "json_loads ?e2 (repair example_text) = Inr (JInt 3)"
    by simp_all
  from unparseable_input_aborts [OF d1 o1 i1 r1] j1
    unparseable_input_aborts [OF d2 o2 i2 r2] j2
  show ?thesis by simp
qed

section \<open>Full shards and the summary\<close>








text \<open>
  C9 fails on the code. In the example run, which ends normally with one record
  processed and one skipped, exactly one shard file was created, yet the summary
  reports 2 files: line 215 takes \<open>file_index\<close> in both branches of its conditional,
  and \<open>file_index\<close> has already moved on to the shard that would come next.
\<close>

theorem summary_counts_one_shard_too_many:
  "fst (convert_and_split_metadata example_env example_args) = ExitCompleted \<and>
   total_processed_count (snd (convert_and_split_metadata example_env example_args)) = 1 \<and>
   total_skipped_count (snd (convert_and_split_metadata example_env example_args)) = 1 \<and>
   length (files (snd (convert_and_split_metadata example_env example_args))) = 1 \<and>
   MsgSummary 1 2 \<in> set (out (snd (convert_and_split_metadata example_env example_args)))"
proof -
  have "length (files (snd (convert_and_split_metadata example_env example_args))) = 1"
    using arg_cong [OF example_run(2), of length] by simp
  with example_run show ?thesis by simp
qed

section \<open>Elements that are no mappings\<close>

lemma process_records_append:
  "process_records e a st (xs @ ys) =
     (case process_records e a st xs of
        Next st' \<Rightarrow> process_records e a st' ys
      | stop \<Rightarrow> stop)"
  by (induction xs arbitrary: st) (auto split: flow.splits)

lemma process_record_not_mapping:
  "\<not> is_mapping r \<Longrightarrow> process_record e a st r = Raise AttributeError st"
  by (cases r) (simp_all add: is_mapping_def process_record_def)

lemma stray_load:
  "load_metadata stray_env example_args =
     Inr (print MsgParsing (print MsgFixing
            (print (MsgOutputPrefix (ascii ''out'') 1)
               (print (MsgStarting (ascii ''in.json'')) init_state))),
          [hd example_records] @ JStr (ascii ''stray'') # tl example_records)"
  by (simp add: load_metadata_def stray_env_def example_env_def example_args_def Let_def)

text \<open>
  C10. When an element of the parsed list is no mapping, the run never ends normally:
  the element is not skipped, the records behind it are not counted, so that the
  processed and skipped counts together are at most the number of elements before it,
  and, unless opening or writing a shard has failed before the element was reached,
  the run leaves through the generic handler, whose message is the last one printed.
\<close>

theorem non_mapping_aborts:
  assumes load: "load_metadata e a = Inr (st0, pre @ r # post)"
    and nm: "\<not> is_mapping r"
    and run: "convert_and_split_metadata e a = (x, st)"
  shows "(x = ExitUnexpected \<or> x = ExitOpenError \<or> x = ExitWriteError) \<and>
         (io_ok e \<longrightarrow> x = ExitUnexpected \<and> last (out st) = MsgUnexpected) \<and>
         total_processed_count st + total_skipped_count st \<le> int (length pre)"
proof -
  let ?recs = "pre @ r # post"
  let ?st1 = "print (MsgLoaded (length ?recs)) st0"
  note l0 = load_metadata_Inr [OF load]
  from l0 have inv: "loop_inv a ?st1" by simp
  from l0 have c0: "total_processed_count ?st1 = 0" "total_skipped_count ?st1 = 0"
    by (simp_all add: clean_def)
  note post = process_records_post [OF inv, of e pre]
  have fl: "process_records e a ?st1 ?recs =
      (case process_records e a ?st1 pre of
         Next st' \<Rightarrow> Raise AttributeError st'
       | stop \<Rightarrow> stop)"
    by (simp add: process_records_append process_record_not_mapping [OF nm] split: flow.splits)
  from load run have r: "(x, st) =
      (case process_records e a ?st1 ?recs of Next st3 \<Rightarrow> (ExitCompleted, final_report st3)
       | Return x st3 \<Rightarrow> (x, st3) | Raise exc st3 \<Rightarrow> outer_handler a exc st3)"
    by (simp add: convert_and_split_metadata_def)
  show ?thesis
  proof (cases "process_records e a ?st1 pre")
    case (Next st')
    with r fl have "x = ExitUnexpected" "st = close_outfile (print MsgUnexpected st')"
      by (simp_all add: outer_handler_AttributeError)
    with post Next c0 show ?thesis by (simp add: loop_post_def)
  next
    case (Return x' st')
    with r fl have "x = x'" "st = st'" by simp_all
    with post Return c0 show ?thesis by (auto simp: loop_post_def)
  next
    case (Raise exc st')
    with post have "exc = AttributeError" by (simp add: loop_post_def)
    with r fl Raise have "x = ExitUnexpected" "st = close_outfile (print MsgUnexpected st')"
      by (simp_all add: outer_handler_AttributeError)
    with post Raise c0 show ?thesis by (simp add: loop_post_def)
  qed
qed

theorem non_mapping_aborts_witness:
  "fst (convert_and_split_metadata stray_env example_args) = ExitUnexpected \<and>
   last (out (snd (convert_and_split_metadata stray_env example_args))) = MsgUnexpected \<and>
   total_processed_count (snd (convert_and_split_metadata stray_env example_args)) +
     total_skipped_count (snd (convert_and_split_metadata stray_env example_args)) \<le> 1"
proof -
  have run: "convert_and_split_metadata stray_env example_args =
      (fst (convert_and_split_metadata stray_env example_args),
       snd (convert_and_split_metadata stray_env example_args))" by simp
  have nm: "\<not> is_mapping (JStr (ascii ''stray''))" by (simp add: is_mapping_def)
  have io: "io_ok stray_env" by (simp add: io_ok_def stray_env_def example_env_def)
  from non_mapping_aborts [OF stray_load nm run] io show ?thesis by simp
qed

end
